theory Spec2Isabelle
  imports Complex_Main "HOL-Library.Char_ord" "HOL-Library.List_Lexorder" "HOL-Library.Log_Nat"
begin

section \<open>Strings\<close>

text \<open>
  A Python \<open>str\<close> is modelled as a \<open>string\<close> whose characters are the code points
  below 256 (ASCII and Latin-1); texts with other code points are outside the model.
  \<open>lower_char\<close> is \<open>str.lower\<close> on one character, \<open>is_word_char\<close> is the class
  \<open>\w\<close> of the \<open>re\<close> module for \<open>str\<close> patterns (alphanumeric or underscore) and
  \<open>is_space\<close> is \<open>str.isspace\<close>, each restricted to these code points.
\<close>

definition lower_char :: "char \<Rightarrow> char" where
  "lower_char c =
     (let n = (of_char c :: nat) in
      if (65 \<le> n \<and> n \<le> 90) \<or> (192 \<le> n \<and> n \<le> 222 \<and> n \<noteq> 215)
      then char_of (n + 32) else c)"

definition lower_str :: "string \<Rightarrow> string" where
  "lower_str s = map lower_char s"

definition is_word_char :: "char \<Rightarrow> bool" where
  "is_word_char c =
     (let n = (of_char c :: nat) in
      (48 \<le> n \<and> n \<le> 57) \<or> (65 \<le> n \<and> n \<le> 90) \<or> n = 95 \<or> (97 \<le> n \<and> n \<le> 122)
      \<or> n = 170 \<or> n = 178 \<or> n = 179 \<or> n = 181 \<or> n = 185 \<or> n = 186
      \<or> (188 \<le> n \<and> n \<le> 190) \<or> (192 \<le> n \<and> n \<noteq> 215 \<and> n \<noteq> 247))"

definition is_space :: "char \<Rightarrow> bool" where
  "is_space c =
     (let n = (of_char c :: nat) in
      (9 \<le> n \<and> n \<le> 13) \<or> (28 \<le> n \<and> n \<le> 32) \<or> n = 133 \<or> n = 160)"

definition strip :: "string \<Rightarrow> string" where
  "strip s = rev (dropWhile is_space (rev (dropWhile is_space s)))"

section \<open>SkillExtractor\<close>

subsection \<open>The compiled pattern\<close>

text \<open>
  \<open>_build_patterns\<close> sorts the matchable strings by length, longest first
  (\<open>sorted(all_patterns, key=len, reverse=True)\<close>, a stable sort), escapes each one and
  compiles \<open>\b(p1|p2|...)\b\<close>. The argument of \<open>sorted_skills\<close> is the set \<open>all_patterns\<close>
  in the order in which Python iterates it, which the language leaves open. The compiled
  pattern is kept as the ordered list of its literal alternatives; \<open>None\<close> is the
  \<open>self._pattern = None\<close> of an empty dictionary.
\<close>

definition all_patterns :: "string set \<Rightarrow> (string \<times> string list) list \<Rightarrow> string set" where
  "all_patterns all_skills variations =
     all_skills \<union> (\<Union>(canonical, vs) \<in> set variations. lower_str ` set vs)"

definition sorted_skills :: "string list \<Rightarrow> string list" where
  "sorted_skills iteration = sort_key (\<lambda>skill. - int (length skill)) iteration"

definition build_patterns :: "string list \<Rightarrow> string list option" where
  "build_patterns iteration =
     (if sorted_skills iteration = [] then None else Some (sorted_skills iteration))"

text \<open>
  The matching of \<open>\b(p1|p2|...)\b\<close> by the backtracking engine of \<open>re\<close>: at a start
  position \<open>i\<close> the leading \<open>\b\<close> must hold, then the alternatives are tried from left to
  right, and an alternative is accepted when its characters are in the text at \<open>i\<close>
  (compared after lowering under \<open>re.IGNORECASE\<close>) and the trailing \<open>\b\<close> holds behind
  it; otherwise the engine backtracks into the next alternative. \<open>\b\<close> holds where
  exactly one of the two neighbouring characters is a word character, the outside of
  the text counting as a non-word character.
\<close>

definition word_boundary :: "string \<Rightarrow> nat \<Rightarrow> bool" where
  "word_boundary text i =
     ((0 < i \<and> i \<le> length text \<and> is_word_char (text ! (i - 1)))
      \<noteq> (i < length text \<and> is_word_char (text ! i)))"

definition char_eq :: "bool \<Rightarrow> char \<Rightarrow> char \<Rightarrow> bool" where
  "char_eq case_sensitive a b =
     (if case_sensitive then a = b else lower_char a = lower_char b)"

definition literal_at :: "bool \<Rightarrow> string \<Rightarrow> nat \<Rightarrow> string \<Rightarrow> bool" where
  "literal_at case_sensitive text i p =
     (i + length p \<le> length text
      \<and> list_all2 (char_eq case_sensitive) p (take (length p) (drop i text)))"

definition alt_matches :: "bool \<Rightarrow> string \<Rightarrow> nat \<Rightarrow> string \<Rightarrow> bool" where
  "alt_matches case_sensitive text i p =
     (literal_at case_sensitive text i p \<and> word_boundary text (i + length p))"

definition match_at :: "bool \<Rightarrow> string list \<Rightarrow> string \<Rightarrow> nat \<Rightarrow> string option" where
  "match_at case_sensitive ps text i =
     (if word_boundary text i then find (alt_matches case_sensitive text i) ps else None)"

text \<open>
  \<open>findall\<close> scans from left to right: after a match the search goes on behind it (one
  position further after an empty match), without a match one position further. A span
  is the start and the length of a match; \<open>findall\<close> returns the matched pieces of the
  text.
\<close>

function findall_spans :: "bool \<Rightarrow> string list \<Rightarrow> string \<Rightarrow> nat \<Rightarrow> (nat \<times> nat) list" where
  "findall_spans case_sensitive ps text i =
     (if length text < i then []
      else case match_at case_sensitive ps text i of
             None \<Rightarrow> findall_spans case_sensitive ps text (Suc i)
           | Some p \<Rightarrow>
               (i, length p)
               # findall_spans case_sensitive ps text (if p = [] then Suc i else i + length p))"
  by pat_completeness auto
termination
  by (relation "measure (\<lambda>(case_sensitive, ps, text, i). Suc (length text) - i)")
    (auto simp: neq_Nil_conv)

definition findall :: "bool \<Rightarrow> string list \<Rightarrow> string \<Rightarrow> string list" where
  "findall case_sensitive ps text =
     map (\<lambda>(start, len). take len (drop start text)) (findall_spans case_sensitive ps text 0)"

subsection \<open>Extraction\<close>

record extractor_stats =
  total_extractions :: nat
  total_skills_found :: nat
  unique_skills_found :: "string set"

record extractor =
  case_sensitive :: bool
  remove_duplicates :: bool
  normalize_skills :: bool
  variations :: "(string \<times> string list) list"
  variation_map :: "string \<rightharpoonup> string"
  pattern :: "string list option"
  ex_stats :: extractor_stats

definition zero_stats :: extractor_stats where
  "zero_stats = \<lparr>total_extractions = 0, total_skills_found = 0, unique_skills_found = {}\<rparr>"

text \<open>
  \<open>_load_variations\<close> fills the reverse mapping from the parsed variations file, a
  dictionary from canonical names to variation lists; a later entry overwrites an
  earlier one for the same variation.
\<close>

definition build_variation_map :: "(string \<times> string list) list \<Rightarrow> (string \<rightharpoonup> string)" where
  "build_variation_map vars =
     fold (\<lambda>(canonical, vs) m. fold (\<lambda>variation m'. m'(lower_str variation \<mapsto> lower_str canonical)) vs m)
       vars Map.empty"

text \<open>
  The constructor: \<open>vars\<close> is the content of the variations file (empty when there is
  none), read only when \<open>normalize_skills\<close> is set; \<open>iteration\<close> lists \<open>all_patterns\<close>
  in Python's iteration order.
\<close>

definition new_extractor ::
  "bool \<Rightarrow> bool \<Rightarrow> bool \<Rightarrow> (string \<times> string list) list \<Rightarrow> string list \<Rightarrow> extractor" where
  "new_extractor cs rd ns vars iteration =
     (let loaded = (if ns then vars else []) in
      \<lparr>case_sensitive = cs, remove_duplicates = rd, normalize_skills = ns,
       variations = loaded, variation_map = build_variation_map loaded,
       pattern = build_patterns iteration, ex_stats = zero_stats\<rparr>)"

definition normalize_skill :: "extractor \<Rightarrow> string \<Rightarrow> string" where
  "normalize_skill ex skill =
     (let skill_lower = lower_str skill in
      case variation_map ex skill_lower of Some canonical \<Rightarrow> canonical | None \<Rightarrow> skill_lower)"

fun dedup_loop :: "string list \<Rightarrow> string set \<Rightarrow> string list \<Rightarrow> string list" where
  "dedup_loop [] seen result = result"
| "dedup_loop (skill # skills) seen result =
     (if skill \<notin> seen then dedup_loop skills (insert skill seen) (result @ [skill])
      else dedup_loop skills seen result)"

definition remove_duplicates_preserve_order :: "string list \<Rightarrow> string list" where
  "remove_duplicates_preserve_order skills = dedup_loop skills {} []"

text \<open>
  The argument of \<open>extract\<close> is any Python object: \<open>None\<close>, a \<open>str\<close>, or something else
  (a float such as NaN from an empty cell). \<open>extract\<close> returns the skills and the
  extractor with its statistics updated.
\<close>

datatype text_input = NoneVal | StrVal string | OtherVal

definition update_stats :: "extractor_stats \<Rightarrow> string list \<Rightarrow> extractor_stats" where
  "update_stats st skills =
     \<lparr>total_extractions = total_extractions st + 1,
      total_skills_found = total_skills_found st + length skills,
      unique_skills_found = unique_skills_found st \<union> set skills\<rparr>"

definition extract_str :: "extractor \<Rightarrow> string \<Rightarrow> string list \<times> extractor" where
  "extract_str ex text =
     (if text = [] then ([], ex)
      else case pattern ex of
        None \<Rightarrow> ([], ex)
      | Some ps \<Rightarrow>
          (let matches = findall (case_sensitive ex) ps text;
               skills = map lower_str matches;
               skills = (if normalize_skills ex then map (normalize_skill ex) skills else skills);
               skills = (if remove_duplicates ex then remove_duplicates_preserve_order skills
                         else skills)
           in (skills, ex\<lparr>ex_stats := update_stats (ex_stats ex) skills\<rparr>)))"

fun "extract" :: "extractor \<Rightarrow> text_input \<Rightarrow> string list \<times> extractor" where
  "extract ex (StrVal text) = extract_str ex text"
| "extract ex NoneVal = ([], ex)"
| "extract ex OtherVal = ([], ex)"

definition reset_stats :: "extractor \<Rightarrow> extractor" where
  "reset_stats ex = ex\<lparr>ex_stats := zero_stats\<rparr>"

text \<open>
  The elements of a list that are first occurrences, in the order of the list: the
  element at index \<open>i\<close> is kept when it is not among the elements before \<open>i\<close>.
\<close>

definition first_occurrences :: "'a list \<Rightarrow> 'a list" where
  "first_occurrences xs =
     map (\<lambda>i. xs ! i) (filter (\<lambda>i. xs ! i \<notin> set (take i xs)) [0..<length xs])"

text \<open>
  The loop of \<open>_remove_duplicates_preserve_order\<close> without its result accumulator, used
  to reason about it.
\<close>

fun keep_first :: "'a set \<Rightarrow> 'a list \<Rightarrow> 'a list" where
  "keep_first seen [] = []"
| "keep_first seen (x # xs) =
     (if x \<in> seen then keep_first seen xs else x # keep_first (insert x seen) xs)"

section \<open>Aggregator\<close>

text \<open>
  A \<open>Counter\<close> is a dictionary in insertion order: an association list with distinct
  keys. \<open>Counter.update\<close> with an iterable adds one to the count of each element, a new
  key going to the end.
\<close>

fun counter_incr :: "(string \<times> nat) list \<Rightarrow> string \<Rightarrow> (string \<times> nat) list" where
  "counter_incr [] k = [(k, 1)]"
| "counter_incr ((k', c) # rest) k =
     (if k' = k then (k', c + 1) # rest else (k', c) # counter_incr rest k)"

definition counter_update :: "(string \<times> nat) list \<Rightarrow> string list \<Rightarrow> (string \<times> nat) list" where
  "counter_update counts keys = fold (\<lambda>k counts'. counter_incr counts' k) keys counts"

text \<open>
  A cell of the column \<open>extracted_skills\<close> is a list of skills or something else
  (\<open>None\<close> here). \<open>set_iter skills\<close> is the order in which Python iterates
  \<open>set(skills)\<close>; the language fixes only that each element comes once.
\<close>

definition unique_skills_of :: "(string list \<Rightarrow> string list) \<Rightarrow> string list option \<Rightarrow> string list" where
  "unique_skills_of set_iter cell = (case cell of Some skills \<Rightarrow> set_iter skills | None \<Rightarrow> [])"

definition calculate_document_frequency ::
  "(string list \<Rightarrow> string list) \<Rightarrow> string list option list \<Rightarrow> (string \<times> nat) list" where
  "calculate_document_frequency set_iter df =
     fold (\<lambda>cell skill_counts. counter_update skill_counts (unique_skills_of set_iter cell)) df []"

definition contains_skill :: "string \<Rightarrow> string list option \<Rightarrow> bool" where
  "contains_skill s cell = (case cell of Some skills \<Rightarrow> s \<in> set skills | None \<Rightarrow> False)"

text \<open>
  The count a counter holds for a key (a missing key counts as zero, as \<open>Counter\<close>
  reads it), and the invariant that stored counts are positive.
\<close>

definition count_of :: "(string \<times> nat) list \<Rightarrow> string \<Rightarrow> nat" where
  "count_of counts s = (case map_of counts s of None \<Rightarrow> 0 | Some c \<Rightarrow> c)"

definition positive_counts :: "(string \<times> nat) list \<Rightarrow> bool" where
  "positive_counts counts = (\<forall>(k, c)\<in>set counts. 0 < c)"

subsection \<open>Percentages and ranking\<close>

text \<open>
  A Python \<open>float\<close> is an IEEE 754 double. A finite double is modelled by the rational
  number it stands for, and every arithmetic result is rounded to the nearest double,
  a tie going to the double with the even significand: \<open>fl x\<close> is \<open>x\<close> rounded to 53
  significant bits, or to a multiple of \<open>2 ^ -1074\<close> in the subnormal range. A float
  product too large for a double is an infinity; the true division of two integers
  raises \<open>OverflowError\<close> then, and \<open>ZeroDivisionError\<close> on a zero divisor. The integers
  of the source are naturals.
\<close>

datatype py_error = ZeroDivisionError | OverflowError | KeyError | OSError

definition round_half_even :: "rat \<Rightarrow> int" where
  "round_half_even y =
     (let lower = \<lfloor>y\<rfloor>; rest = y - of_int lower in
      if rest < 1 / 2 then lower
      else if 1 / 2 < rest then lower + 1
      else if even lower then lower else lower + 1)"

text \<open>The exponent of a positive rational: \<open>2 ^ lg x \<le> x < 2 ^ (lg x + 1)\<close>.\<close>

definition lg :: "rat \<Rightarrow> int" where
  "lg x = (case quotient_of x of (p, q) \<Rightarrow>
             (let d = bitlen p - bitlen q in if 2 powi d \<le> x then d else d - 1))"

definition fl :: "rat \<Rightarrow> rat" where
  "fl x =
     (if x = 0 then 0
      else (let e = max (lg \<bar>x\<bar> - 52) (- 1074)
            in sgn x * of_int (round_half_even (\<bar>x\<bar> / 2 powi e)) * 2 powi e))"

datatype pyfloat = Finite rat | PosInf | NegInf

definition to_float :: "rat \<Rightarrow> pyfloat" where
  "to_float x =
     (let y = fl x in
      if 2 powi 1024 \<le> y then PosInf else if y \<le> - (2 powi 1024) then NegInf else Finite y)"

fun float_le :: "pyfloat \<Rightarrow> pyfloat \<Rightarrow> bool" where
  "float_le NegInf b = True"
| "float_le (Finite a) NegInf = False"
| "float_le (Finite a) (Finite b) = (a \<le> b)"
| "float_le (Finite a) PosInf = True"
| "float_le PosInf NegInf = False"
| "float_le PosInf (Finite b) = False"
| "float_le PosInf PosInf = True"

text \<open>The product \<open>x * 100\<close> of a float and the integer 100.\<close>

fun times100 :: "pyfloat \<Rightarrow> pyfloat" where
  "times100 (Finite x) = to_float (x * 100)"
| "times100 PosInf = PosInf"
| "times100 NegInf = NegInf"

definition truediv :: "nat \<Rightarrow> nat \<Rightarrow> py_error + pyfloat" where
  "truediv a b =
     (if b = 0 then Inl ZeroDivisionError
      else (case to_float (of_nat a / of_nat b) of
              Finite q \<Rightarrow> Inr (Finite q)
            | PosInf \<Rightarrow> Inl OverflowError
            | NegInf \<Rightarrow> Inl OverflowError))"

text \<open>
  \<open>percentage_of\<close> is the expression \<open>(count / total_jds) * 100 if total_jds > 0 else 0\<close>,
  which the aggregator and the rules generator both use. \<open>py_round2\<close> is
  \<open>round(x, 2)\<close>: the decimal with two places nearest to the double (a tie going to the
  even last digit), as a double again.
\<close>

definition percentage_of :: "nat \<Rightarrow> nat \<Rightarrow> py_error + pyfloat" where
  "percentage_of count total_jds =
     (if total_jds > 0
      then (case truediv count total_jds of Inl e \<Rightarrow> Inl e | Inr q \<Rightarrow> Inr (times100 q))
      else Inr (Finite 0))"

fun py_round2 :: "pyfloat \<Rightarrow> pyfloat" where
  "py_round2 (Finite x) = to_float (of_int (round_half_even (x * 100)) / 100)"
| "py_round2 PosInf = PosInf"
| "py_round2 NegInf = NegInf"

text \<open>The slice \<open>xs[:n]\<close>; a negative \<open>n\<close> counts from the end.\<close>

definition slice_to :: "int \<Rightarrow> 'a list \<Rightarrow> 'a list" where
  "slice_to n xs = (if n < 0 then take (length xs - nat (- n)) xs else take (nat n) xs)"

fun percentages :: "nat \<Rightarrow> (string \<times> nat) list \<Rightarrow> py_error + (string \<times> pyfloat) list" where
  "percentages total_jds [] = Inr []"
| "percentages total_jds ((skill, count) # rest) =
     (case percentage_of count total_jds of
        Inl e \<Rightarrow> Inl e
      | Inr p \<Rightarrow>
          (case percentages total_jds rest of
             Inl e \<Rightarrow> Inl e
           | Inr ps \<Rightarrow> Inr ((skill, p) # ps)))"

text \<open>
  \<open>sorted(skill_frequencies.items(), key=lambda x: x[1], reverse=True)\<close>: a stable sort
  by descending count of the items in the order of the dictionary.
\<close>

definition rank_by_frequency :: "(string \<times> nat) list \<Rightarrow> (string \<times> nat) list" where
  "rank_by_frequency items = sort_key (\<lambda>(skill, count). - int count) items"

record top_skill =
  ts_skill :: string
  ts_count :: nat
  ts_percentage :: pyfloat

fun top_entries :: "(string \<times> pyfloat) list \<Rightarrow> (string \<times> nat) list \<Rightarrow> py_error + top_skill list" where
  "top_entries skill_percentages [] = Inr []"
| "top_entries skill_percentages ((skill, count) # rest) =
     (case map_of skill_percentages skill of
        None \<Rightarrow> Inl KeyError
      | Some p \<Rightarrow>
          (case top_entries skill_percentages rest of
             Inl e \<Rightarrow> Inl e
           | Inr es \<Rightarrow>
               Inr (\<lparr>ts_skill = skill, ts_count = count, ts_percentage = py_round2 p\<rparr> # es)))"

text \<open>
  The result of \<open>_aggregate_group\<close> for the rows of one group, given as the cells of
  the column \<open>extracted_skills\<close>. The entry \<open>avg_skills_per_jd\<close>, the mean of another
  column, is left out.
\<close>

record aggregation =
  total_jds :: nat
  unique_skills :: nat
  skill_frequencies :: "(string \<times> nat) list"
  skill_percentages :: "(string \<times> pyfloat) list"
  top_skills :: "top_skill list"

definition aggregate_group ::
  "(string list \<Rightarrow> string list) \<Rightarrow> int \<Rightarrow> string list option list \<Rightarrow> py_error + aggregation" where
  "aggregate_group set_iter top_n df =
     (let total = length df;
          frequencies = calculate_document_frequency set_iter df
      in case percentages total frequencies of
           Inl e \<Rightarrow> Inl e
         | Inr pcts \<Rightarrow>
             (case top_entries pcts (slice_to top_n (rank_by_frequency frequencies)) of
                Inl e \<Rightarrow> Inl e
              | Inr entries \<Rightarrow>
                  Inr \<lparr>total_jds = total, unique_skills = length frequencies,
                       skill_frequencies = frequencies, skill_percentages = pcts,
                       top_skills = entries\<rparr>))"

subsection \<open>Role normalization\<close>

text \<open>
  A cell of the role column: \<open>None\<close>, the float NaN of an empty cell, or a string.
  \<open>role_mappings\<close> is the configured dictionary from canonical role to its variations,
  in its order.
\<close>

datatype role_value = RoleNone | RoleNaN | RoleStr string

definition normalize_role :: "(string \<times> string list) list \<Rightarrow> role_value \<Rightarrow> string" where
  "normalize_role role_mappings role =
     (case role of
        RoleNone \<Rightarrow> ''Unknown''
      | RoleNaN \<Rightarrow> ''Unknown''
      | RoleStr r \<Rightarrow>
          if r = [] then ''Unknown''
          else (let role_lower = strip (lower_str r) in
                case find (\<lambda>(canonical, vs). role_lower \<in> set (map lower_str vs))
                       role_mappings of
                  Some (canonical, vs) \<Rightarrow> canonical
                | None \<Rightarrow> strip r))"

section \<open>SkillDictionary\<close>

text \<open>
  The dictionary hands out \<open>set\<close> objects, which callers may mutate, so sets live in
  an explicit store: a heap is the list of all set objects, and a reference is an index
  into it. Creating a set appends it to the heap.
\<close>

type_synonym heap = "string set list"

definition alloc :: "heap \<Rightarrow> string set \<Rightarrow> nat \<times> heap" where
  "alloc h s = (length h, h @ [s])"

record dictionary_stats =
  total_loaded :: nat
  duplicates_removed :: nat
  files_loaded :: nat

text \<open>
  The fields \<open>_skills\<close> (a dictionary from category to a set object, in insertion
  order), \<open>_all_skills\<close> (a set object) and \<open>_stats\<close>.
\<close>

record skill_dictionary =
  d_skills :: "(string \<times> nat) list"
  d_all_skills :: nat
  d_stats :: dictionary_stats

definition new_dictionary :: "heap \<Rightarrow> skill_dictionary \<times> heap" where
  "new_dictionary h =
     (let (technical, h) = alloc h {};
          (soft, h) = alloc h {};
          (custom, h) = alloc h {};
          (combined, h) = alloc h {}
      in (\<lparr>d_skills = [(''technical'', technical), (''soft'', soft), (''custom'', custom)],
           d_all_skills = combined,
           d_stats = \<lparr>total_loaded = 0, duplicates_removed = 0, files_loaded = 0\<rparr>\<rparr>, h))"

text \<open>
  What a path leads to: nothing (\<open>Path.exists\<close> is false), something that exists but
  that \<open>open\<close> cannot read (it raises \<open>OSError\<close>), or a text file, given by its lines.
\<close>

datatype file_state = Missing | Unreadable | Readable "string list"

fun load_lines :: "string list \<Rightarrow> string set \<Rightarrow> nat \<Rightarrow> string set \<times> nat" where
  "load_lines [] loaded duplicates = (loaded, duplicates)"
| "load_lines (line # rest) loaded duplicates =
     (let stripped = strip line in
      if stripped = [] \<or> take 1 stripped = ''#'' then load_lines rest loaded duplicates
      else (let skill = lower_str stripped in
            if skill \<in> loaded then load_lines rest loaded (duplicates + 1)
            else load_lines rest (insert skill loaded) duplicates))"

definition load_from_file ::
  "(string \<Rightarrow> file_state) \<Rightarrow> skill_dictionary \<Rightarrow> heap \<Rightarrow> string
     \<Rightarrow> py_error + (nat \<times> skill_dictionary \<times> heap)" where
  "load_from_file fs d h file_path =
     (case fs file_path of
        Missing \<Rightarrow> (let (result, h') = alloc h {} in Inr (result, d, h'))
      | Unreadable \<Rightarrow> Inl OSError
      | Readable lines \<Rightarrow>
          (let (loaded, duplicates) = load_lines lines {} 0;
               (result, h') = alloc h loaded;
               st = d_stats d
           in Inr (result,
                   d\<lparr>d_stats := st\<lparr>duplicates_removed := duplicates_removed st + duplicates,
                                     files_loaded := files_loaded st + 1\<rparr>\<rparr>,
                   h')))"

text \<open>Assignment \<open>dict[key] = value\<close>: an existing key keeps its place.\<close>

fun dict_assign :: "(string \<times> 'a) list \<Rightarrow> string \<Rightarrow> 'a \<Rightarrow> (string \<times> 'a) list" where
  "dict_assign [] key v = [(key, v)]"
| "dict_assign ((k, w) # rest) key v =
     (if k = key then (k, v) # rest else (k, w) # dict_assign rest key v)"

text \<open>
  \<open>load_all\<close> reads the configured paths (\<open>None\<close> or an empty path counts as not
  configured), then rebuilds the combined set as a new object.
\<close>

definition load_category ::
  "(string \<Rightarrow> file_state) \<Rightarrow> string \<Rightarrow> string option \<Rightarrow> skill_dictionary \<times> heap
     \<Rightarrow> py_error + (skill_dictionary \<times> heap)" where
  "load_category fs category path dh =
     (case path of
        None \<Rightarrow> Inr dh
      | Some file_path \<Rightarrow>
          if file_path = [] then Inr dh
          else (case load_from_file fs (fst dh) (snd dh) file_path of
                  Inl e \<Rightarrow> Inl e
                | Inr (result, d', h') \<Rightarrow>
                    Inr (d'\<lparr>d_skills := dict_assign (d_skills d') category result\<rparr>, h')))"

definition load_all ::
  "(string \<Rightarrow> file_state) \<Rightarrow> string option \<Rightarrow> string option \<Rightarrow> string option
     \<Rightarrow> skill_dictionary \<Rightarrow> heap \<Rightarrow> py_error + (skill_dictionary \<times> heap)" where
  "load_all fs technical soft custom d h =
     (case load_category fs ''technical'' technical (d, h) of
        Inl e \<Rightarrow> Inl e
      | Inr dh1 \<Rightarrow>
     (case load_category fs ''soft'' soft dh1 of
        Inl e \<Rightarrow> Inl e
      | Inr dh2 \<Rightarrow>
     (case load_category fs ''custom'' custom dh2 of
        Inl e \<Rightarrow> Inl e
      | Inr (d3, h3) \<Rightarrow>
          (let combined_set = \<Union> (set (map (\<lambda>(category, a). h3 ! a) (d_skills d3)));
               (combined, h4) = alloc h3 combined_set
           in Inr (d3\<lparr>d_all_skills := combined,
                       d_stats := (d_stats d3)\<lparr>total_loaded := card combined_set\<rparr>\<rparr>, h4)))))"

definition get_all_skills :: "skill_dictionary \<Rightarrow> heap \<Rightarrow> nat \<times> heap" where
  "get_all_skills d h = alloc h (h ! d_all_skills d)"

definition get_skills_by_category :: "skill_dictionary \<Rightarrow> heap \<Rightarrow> string \<Rightarrow> nat \<times> heap" where
  "get_skills_by_category d h category =
     (case map_of (d_skills d) category of
        Some a \<Rightarrow> alloc h (h ! a)
      | None \<Rightarrow> (let (fresh, h') = alloc h {} in alloc h' (h' ! fresh)))"

definition add_skill :: "skill_dictionary \<Rightarrow> heap \<Rightarrow> string \<Rightarrow> string \<Rightarrow> py_error + heap" where
  "add_skill d h skill category =
     (let normalized = lower_str skill in
      case map_of (d_skills d) category of
        None \<Rightarrow> Inl KeyError
      | Some a \<Rightarrow>
          (let h' = h[a := insert normalized (h ! a)] in
           Inr (h'[d_all_skills d := insert normalized (h' ! d_all_skills d)])))"

definition contains :: "skill_dictionary \<Rightarrow> heap \<Rightarrow> string \<Rightarrow> bool" where
  "contains d h skill = (lower_str skill \<in> h ! d_all_skills d)"

definition get_category :: "skill_dictionary \<Rightarrow> heap \<Rightarrow> string \<Rightarrow> string option" where
  "get_category d h skill =
     (let normalized = lower_str skill in
      map_option fst (find (\<lambda>(category, a). normalized \<in> h ! a) (d_skills d)))"

text \<open>
  What a caller can do to a set it holds, and the effect on the store of doing it to
  the set at a reference. \<open>contents\<close> reads the set a getter returned.
\<close>

datatype set_mutation =
  SetAdd string | SetDiscard string | SetClear
  | SetUpdate "string list" | SetDifferenceUpdate "string list"
  | SetIntersectionUpdate "string list"

fun apply_mutation :: "set_mutation \<Rightarrow> string set \<Rightarrow> string set" where
  "apply_mutation (SetAdd x) s = insert x s"
| "apply_mutation (SetDiscard x) s = s - {x}"
| "apply_mutation SetClear s = {}"
| "apply_mutation (SetUpdate xs) s = s \<union> set xs"
| "apply_mutation (SetDifferenceUpdate xs) s = s - set xs"
| "apply_mutation (SetIntersectionUpdate xs) s = s \<inter> set xs"

definition mutate :: "nat \<Rightarrow> set_mutation \<Rightarrow> heap \<Rightarrow> heap" where
  "mutate a m h = h[a := apply_mutation m (h ! a)]"

definition contents :: "nat \<times> heap \<Rightarrow> string set" where
  "contents r = snd r ! fst r"

text \<open>The references of a dictionary point into the heap.\<close>

definition dictionary_ok :: "skill_dictionary \<Rightarrow> heap \<Rightarrow> bool" where
  "dictionary_ok d h =
     (d_all_skills d < length h \<and> (\<forall>(category, a)\<in>set (d_skills d). a < length h))"

section \<open>RulesGenerator\<close>

text \<open>
  The generator's settings: \<open>min_frequency\<close>, \<open>core_threshold\<close> and the parsed
  variations file. \<open>core_threshold\<close> is the number written in the configuration; the
  attribute holds it as a float, \<open>to_float (core_threshold gen)\<close>. A rule is the dictionary \<open>_create_rule\<close> builds; \<open>rank\<close> and \<open>role\<close>
  are present only when given.
\<close>

record rules_generator =
  min_frequency :: int
  core_threshold :: rat
  gen_variations :: "(string \<times> string list) list"

record rule =
  rule_skill :: string
  rule_pattern :: string
  rule_variations :: "string list"
  rule_category :: string
  rule_pattern_type :: string
  rule_frequency :: nat
  rule_percentage :: pyfloat
  is_core_skill :: bool
  rule_rank :: "nat option"
  rule_role :: "string option"

fun get_variations :: "(string \<times> string list) list \<Rightarrow> string \<Rightarrow> string list" where
  "get_variations [] skill = [skill]"
| "get_variations ((canonical, vs) # rest) skill =
     (if lower_str canonical = lower_str skill then vs
      else if lower_str skill \<in> set (map lower_str vs) then canonical # vs
      else get_variations rest skill)"

fun get_rank_from :: "nat \<Rightarrow> string \<Rightarrow> top_skill list \<Rightarrow> nat option" where
  "get_rank_from i skill [] = None"
| "get_rank_from i skill (entry # rest) =
     (if ts_skill entry = skill then Some i else get_rank_from (i + 1) skill rest)"

definition get_rank :: "string \<Rightarrow> top_skill list \<Rightarrow> nat option" where
  "get_rank skill entries = get_rank_from 1 skill entries"

definition create_rule ::
  "rules_generator \<Rightarrow> skill_dictionary \<Rightarrow> heap \<Rightarrow> string \<Rightarrow> nat \<Rightarrow> nat \<Rightarrow> nat option
     \<Rightarrow> string option \<Rightarrow> py_error + rule" where
  "create_rule gen d h skill count total_docs rank role =
     (case percentage_of count total_docs of
        Inl e \<Rightarrow> Inl e
      | Inr percentage \<Rightarrow>
          (let is_core = float_le (times100 (to_float (core_threshold gen))) percentage in
           Inr \<lparr>rule_skill = skill,
                rule_pattern = skill,
                rule_variations = get_variations (gen_variations gen) skill,
                rule_category = (case get_category d h skill of
                                   None \<Rightarrow> ''unknown''
                                 | Some category \<Rightarrow> if category = [] then ''unknown'' else category),
                rule_pattern_type = ''dictionary'',
                rule_frequency = count,
                rule_percentage = py_round2 percentage,
                is_core_skill = is_core,
                rule_rank = rank,
                rule_role = role\<rparr>))"

text \<open>
  The rules written for one aggregation (\<open>generate_global_rules\<close> with no role, the
  loop body of \<open>generate_role_rules\<close> with one): a skill below \<open>min_frequency\<close> is
  skipped.
\<close>

fun rules_for ::
  "rules_generator \<Rightarrow> skill_dictionary \<Rightarrow> heap \<Rightarrow> aggregation \<Rightarrow> string option
     \<Rightarrow> (string \<times> nat) list \<Rightarrow> py_error + rule list" where
  "rules_for gen d h agg role [] = Inr []"
| "rules_for gen d h agg role ((skill, count) # rest) =
     (if int count < min_frequency gen then rules_for gen d h agg role rest
      else (case create_rule gen d h skill count (total_jds agg)
                   (get_rank skill (top_skills agg)) role of
              Inl e \<Rightarrow> Inl e
            | Inr r \<Rightarrow>
                (case rules_for gen d h agg role rest of
                   Inl e \<Rightarrow> Inl e
                 | Inr rs \<Rightarrow> Inr (r # rs))))"

definition generate_rules ::
  "rules_generator \<Rightarrow> skill_dictionary \<Rightarrow> heap \<Rightarrow> aggregation \<Rightarrow> string option
     \<Rightarrow> py_error + rule list" where
  "generate_rules gen d h agg role = rules_for gen d h agg role (skill_frequencies agg)"

section \<open>Deduplication keeps first occurrences\<close>

lemma dedup_loop_keep_first: "dedup_loop skills seen result = result @ keep_first seen skills"
  by (induction skills arbitrary: seen result) auto

lemma keep_first_indices:
  "keep_first seen xs
     = map (\<lambda>i. xs ! i) (filter (\<lambda>i. xs ! i \<notin> seen \<union> set (take i xs)) [0..<length xs])"
proof (induction xs arbitrary: seen)
  case Nil
  then show ?case by simp
next
  case (Cons x xs)
  have "[0..<Suc (length xs)] = 0 # [Suc 0..<Suc (length xs)]"
    by (rule upt_conv_Cons) simp
  then have upt: "[0..<length (x # xs)] = 0 # map Suc [0..<length xs]"
    by (simp only: map_Suc_upt list.size(4)) simp
  let ?P = "\<lambda>i. (x # xs) ! i \<notin> seen \<union> set (take i (x # xs))"
  have kf: "keep_first seen (x # xs)
              = (if x \<in> seen then [] else [x]) @ keep_first (insert x seen) xs"
    by (simp add: insert_absorb)
  have "filter (\<lambda>i. xs ! i \<notin> insert x seen \<union> set (take i xs)) [0..<length xs]
          = filter (?P \<circ> Suc) [0..<length xs]"
    by (intro filter_cong) auto
  then have tl: "keep_first (insert x seen) xs
                   = map (\<lambda>i. (x # xs) ! i) (filter ?P (map Suc [0..<length xs]))"
    by (simp add: Cons.IH filter_map o_def)
  show ?case
    unfolding upt kf tl by simp
qed

lemma keep_first_distinct: "distinct (keep_first seen xs) \<and> set (keep_first seen xs) = set xs - seen"
  by (induction xs arbitrary: seen) auto

lemma remove_duplicates_first_occurrences:
  "remove_duplicates_preserve_order skills = first_occurrences skills"
  by (simp add: remove_duplicates_preserve_order_def first_occurrences_def
      dedup_loop_keep_first keep_first_indices)

lemma remove_duplicates_distinct:
  "distinct (remove_duplicates_preserve_order skills)
   \<and> set (remove_duplicates_preserve_order skills) = set skills"
  by (simp add: remove_duplicates_preserve_order_def dedup_loop_keep_first keep_first_distinct)

lemma first_occurrences_distinct:
  "distinct (first_occurrences (xs :: string list)) \<and> set (first_occurrences xs) = set xs"
  using remove_duplicates_distinct[of xs] by (simp add: remove_duplicates_first_occurrences)

lemma first_occurrences_Nil: "first_occurrences [] = []"
  by (simp add: first_occurrences_def)

lemma normalize_skill_remove_duplicates:
  "normalize_skill (ex\<lparr>remove_duplicates := b\<rparr>) = normalize_skill ex"
  by (simp add: normalize_skill_def fun_eq_iff)

lemma new_extractor_fields:
  "case_sensitive (new_extractor cs rd ns vars iteration) = cs"
  "remove_duplicates (new_extractor cs rd ns vars iteration) = rd"
  "normalize_skills (new_extractor cs rd ns vars iteration) = ns"
  "pattern (new_extractor cs rd ns vars iteration) = build_patterns iteration"
  "ex_stats (new_extractor cs rd ns vars iteration) = zero_stats"
  by (simp_all add: new_extractor_def Let_def)

text \<open>
  C4: with \<open>remove_duplicates\<close> set, the list returned by \<open>extract\<close> has no duplicates.
  For a non-empty text and a compiled pattern it is the list of first occurrences, in
  their order, of the raw match sequence: the matches \<open>findall\<close> reports, lowered and,
  with \<open>normalize_skills\<close> set, normalized. A skill seen earlier in the document is
  dropped, and nothing is sorted. Every other input gives the empty list.
\<close>

theorem extract_no_duplicates:
  assumes "remove_duplicates ex"
  shows "distinct (fst (extract ex text))
       \<and> (\<forall>t ps. text = StrVal t \<longrightarrow> t \<noteq> [] \<longrightarrow> pattern ex = Some ps \<longrightarrow>
            fst (extract ex text)
              = first_occurrences
                  (if normalize_skills ex
                   then map (normalize_skill ex) (map lower_str (findall (case_sensitive ex) ps t))
                   else map lower_str (findall (case_sensitive ex) ps t)))
       \<and> (text = NoneVal \<or> text = OtherVal \<or> text = StrVal [] \<or> pattern ex = None
            \<longrightarrow> fst (extract ex text) = [])"
  using assms
  by (cases "text")
     (auto simp: extract_str_def Let_def first_occurrences_distinct
        remove_duplicates_first_occurrences
        split: option.splits)

theorem extract_no_duplicates_witness:
  "remove_duplicates
     (new_extractor False True True [(''JavaScript'', [''JS''])]
        [''python'', ''js'', ''javascript''])
   \<and> findall False [''javascript'', ''python'', ''js''] ''Python and JS, python, JavaScript''
       = [''Python'', ''JS'', ''python'', ''JavaScript'']
   \<and> fst (extract
          (new_extractor False True True [(''JavaScript'', [''JS''])]
             [''python'', ''js'', ''javascript''])
          (StrVal ''Python and JS, python, JavaScript'')) = [''python'', ''javascript'']"
proof -
  let ?ex = "new_extractor False True True [(''JavaScript'', [''JS''])]
        [''python'', ''js'', ''javascript'']"
  let ?t = "''Python and JS, python, JavaScript''"
  have h: "remove_duplicates ?ex" by (simp add: new_extractor_fields)
  have p: "pattern ?ex = Some [''javascript'', ''python'', ''js'']" by code_simp
  have n: "normalize_skills ?ex" "case_sensitive ?ex = False"
    by (simp_all add: new_extractor_fields)
  have f: "findall False [''javascript'', ''python'', ''js''] ?t
             = [''Python'', ''JS'', ''python'', ''JavaScript'']"
    by code_simp
  have m: "map (normalize_skill ?ex) (map lower_str [''Python'', ''JS'', ''python'', ''JavaScript''])
             = [''python'', ''javascript'', ''python'', ''javascript'']"
    by code_simp
  have o: "first_occurrences [''python'', ''javascript'', ''python'', ''javascript'']
             = [''python'', ''javascript'']"
    by code_simp
  have ne: "?t \<noteq> []" by simp
  from extract_no_duplicates[OF h, of "StrVal ?t"] p ne
  have "fst (extract ?ex (StrVal ?t))
          = first_occurrences
              (if normalize_skills ?ex
               then map (normalize_skill ?ex) (map lower_str (findall (case_sensitive ?ex)
                      [''javascript'', ''python'', ''js''] ?t))
               else map lower_str (findall (case_sensitive ?ex) [''javascript'', ''python'', ''js''] ?t))"
    by blast
  then have "fst (extract ?ex (StrVal ?t)) = [''python'', ''javascript'']"
    by (simp only: n if_True f m o)
  with h f show ?thesis by (simp only: simp_thms)
qed

lemma extract_first_occurrence_example:
  "fst (extract
     (new_extractor False True True [(''JavaScript'', [''JS''])]
        [''python'', ''js'', ''javascript''])
     (StrVal ''Python and JS, python, JavaScript'')) = [''python'', ''javascript'']"
  by code_simp

section \<open>The running statistics\<close>

text \<open>
  C7, as the code has it: a call of \<open>extract\<close> on a non-empty \<open>str\<close>, by an extractor
  with a compiled pattern, adds one to \<open>total_extractions\<close>, the number of returned skills
  to \<open>total_skills_found\<close> and the returned skills to \<open>unique_skills_found\<close>; every
  other call (\<open>None\<close>, the empty string, a non-string, or no pattern) returns the empty
  list before the statistics are touched. \<open>reset_stats\<close> restores the zero statistics.
\<close>

theorem extract_updates_stats:
  assumes "extract ex text = (skills, ex')"
  shows "(if (\<exists>t. text = StrVal t \<and> t \<noteq> []) \<and> pattern ex \<noteq> None
          then total_extractions (ex_stats ex') = total_extractions (ex_stats ex) + 1
             \<and> total_skills_found (ex_stats ex')
                 = total_skills_found (ex_stats ex) + length skills
             \<and> unique_skills_found (ex_stats ex')
                 = unique_skills_found (ex_stats ex) \<union> set skills
          else skills = [] \<and> ex' = ex)
       \<and> ex_stats (reset_stats ex')
           = \<lparr>total_extractions = 0, total_skills_found = 0, unique_skills_found = {}\<rparr>"
  using assms
  by (cases "text")
     (auto simp: extract_str_def Let_def update_stats_def reset_stats_def zero_stats_def
        split: option.splits if_splits)

theorem extract_updates_stats_witness:
  "total_extractions
     (ex_stats (snd (extract (new_extractor False True True [] [''python'', ''java''])
        (StrVal ''python developer'')))) = 1"
proof -
  let ?ex = "new_extractor False True True [] [''python'', ''java'']"
  let ?r = "extract ?ex (StrVal ''python developer'')"
  have p: "pattern ?ex \<noteq> None"
    by (simp add: new_extractor_fields build_patterns_def sorted_skills_def)
  have "?r = (fst ?r, snd ?r)" by simp
  from extract_updates_stats[OF this] p show ?thesis
    by (simp add: new_extractor_fields zero_stats_def)
qed

theorem extract_empty_text_counterexample:
  "total_extractions
     (ex_stats (snd (extract (new_extractor False True True [] [''python'', ''java''])
        (StrVal ''''))))
   \<noteq> total_extractions (ex_stats (new_extractor False True True [] [''python'', ''java''])) + 1"
  by (simp add: extract_str_def)

section \<open>Longest match first\<close>

lemma sorted_skills_set: "set (sorted_skills iteration) = set iteration"
  by (simp add: sorted_skills_def)

lemma sorted_skills_descending:
  "sorted (map (\<lambda>skill. - int (length skill)) (sorted_skills iteration))"
  by (simp add: sorted_skills_def)

lemma find_longest:
  assumes "sorted (map (\<lambda>skill. - int (length skill)) ps)" and "find P ps = Some p"
  shows "P p \<and> p \<in> set ps \<and> (\<forall>q\<in>set ps. P q \<longrightarrow> length q \<le> length p)"
  using assms
proof (induction ps)
  case Nil
  then show ?case by simp
next
  case (Cons x xs)
  show ?case
  proof (cases "P x")
    case True
    with Cons.prems have "p = x" by simp
    moreover from Cons.prems(1) have "\<forall>q\<in>set xs. length q \<le> length x" by auto
    ultimately show ?thesis using True by auto
  next
    case False
    with Cons.prems have "find P xs = Some p" and "sorted (map (\<lambda>skill. - int (length skill)) xs)"
      by simp_all
    with Cons.IH have "P p \<and> p \<in> set xs \<and> (\<forall>q\<in>set xs. P q \<longrightarrow> length q \<le> length p)"
      by simp
    with False show ?thesis by auto
  qed
qed

lemma match_at_longest:
  assumes "match_at cs (sorted_skills iteration) text i = Some p"
  shows "p \<in> set iteration \<and> word_boundary text i \<and> alt_matches cs text i p
       \<and> (\<forall>q\<in>set iteration. alt_matches cs text i q \<longrightarrow> length q \<le> length p)"
proof -
  from assms have wb: "word_boundary text i"
    and f: "find (alt_matches cs text i) (sorted_skills iteration) = Some p"
    by (auto simp: match_at_def split: if_splits)
  from find_longest[OF sorted_skills_descending f] wb show ?thesis
    by (simp add: sorted_skills_set)
qed

lemma match_at_None:
  assumes "match_at cs (sorted_skills iteration) text i = None"
  shows "\<not> word_boundary text i \<or> (\<forall>q\<in>set iteration. \<not> alt_matches cs text i q)"
  using assms by (auto simp: match_at_def find_None_iff sorted_skills_set split: if_splits)

lemma findall_spans_matches:
  "(s, l) \<in> set (findall_spans cs ps text i)
   \<Longrightarrow> i \<le> s \<and> s \<le> length text \<and> (\<exists>p. match_at cs ps text s = Some p \<and> l = length p)"
proof (induction cs ps "text" i rule: findall_spans.induct)
  case (1 cs ps t i)
  show ?case
  proof (cases "length t < i")
    case True
    with "1.prems" show ?thesis by simp
  next
    case False
    show ?thesis
    proof (cases "match_at cs ps t i")
      case None
      with False "1.prems" have "(s, l) \<in> set (findall_spans cs ps t (Suc i))" by simp
      from "1.IH"(1)[OF False None this] show ?thesis by auto
    next
      case (Some p)
      with False "1.prems" have
        "(s, l) = (i, length p)
         \<or> (s, l) \<in> set (findall_spans cs ps t (if p = [] then Suc i else i + length p))"
        by simp
      then show ?thesis
      proof
        assume "(s, l) = (i, length p)"
        with False Some show ?thesis by auto
      next
        assume "(s, l) \<in> set (findall_spans cs ps t (if p = [] then Suc i else i + length p))"
        from "1.IH"(2)[OF False Some this] show ?thesis by (auto split: if_splits)
      qed
    qed
  qed
qed

lemma findall_spans_apart:
  "sorted_wrt (\<lambda>(s1, l1) (s2, l2). s1 + l1 \<le> s2 \<and> s1 < s2) (findall_spans cs ps text i)"
proof (induction cs ps "text" i rule: findall_spans.induct)
  case (1 cs ps t i)
  show ?case
  proof (cases "length t < i")
    case True
    then show ?thesis by simp
  next
    case False
    show ?thesis
    proof (cases "match_at cs ps t i")
      case None
      with False "1.IH"(1) show ?thesis by simp
    next
      case (Some p)
      let ?next = "if p = [] then Suc i else i + length p"
      have "i + length p \<le> s \<and> i < s" if "(s, l) \<in> set (findall_spans cs ps t ?next)" for s l
      proof -
        from findall_spans_matches[OF that] have "?next \<le> s" by simp
        then show ?thesis by (cases p) auto
      qed
      then have "\<forall>(s, l)\<in>set (findall_spans cs ps t ?next). i + length p \<le> s \<and> i < s"
        by auto
      with False Some "1.IH"(2) show ?thesis by (simp add: case_prod_beta)
    qed
  qed
qed

text \<open>
  What the ordering by length gives: whatever the iteration order of the pattern set,
  the alternative accepted at a start position is a member of the set that matches there
  between two \<open>\b\<close> boundaries, and no member of the set that matches there between
  two \<open>\b\<close> boundaries is longer; the matcher reports nothing at a
  position only if no member matches there. Every reported span is such an accepted
  alternative, and a span reported later starts behind the end of every span reported
  before it, so nothing contained in an accepted match is reported. With the dictionary
  \<open>{machine, machine learning}\<close>, in either iteration order, extracting from
  \<open>expert in machine learning\<close> gives exactly \<open>[machine learning]\<close>.
\<close>

theorem longest_match_first:
  "(match_at cs (sorted_skills iteration) text i = Some p \<longrightarrow>
      p \<in> set iteration \<and> word_boundary text i \<and> alt_matches cs text i p
      \<and> (\<forall>q\<in>set iteration. alt_matches cs text i q \<longrightarrow> length q \<le> length p))
   \<and> (match_at cs (sorted_skills iteration) text i = None \<longrightarrow>
        \<not> word_boundary text i \<or> (\<forall>q\<in>set iteration. \<not> alt_matches cs text i q))
   \<and> (\<forall>(s, l)\<in>set (findall_spans cs (sorted_skills iteration) text 0).
        \<exists>p. match_at cs (sorted_skills iteration) text s = Some p \<and> l = length p)
   \<and> sorted_wrt (\<lambda>(s1, l1) (s2, l2). s1 + l1 \<le> s2 \<and> s1 < s2)
        (findall_spans cs (sorted_skills iteration) text 0)
   \<and> fst (extract (new_extractor False True True [] [''machine'', ''machine learning''])
        (StrVal ''expert in machine learning'')) = [''machine learning'']
   \<and> fst (extract (new_extractor False True True [] [''machine learning'', ''machine''])
        (StrVal ''expert in machine learning'')) = [''machine learning'']"
proof -
  have e1: "fst (extract (new_extractor False True True [] [''machine'', ''machine learning''])
        (StrVal ''expert in machine learning'')) = [''machine learning'']"
    by code_simp
  have e2: "fst (extract (new_extractor False True True [] [''machine learning'', ''machine''])
        (StrVal ''expert in machine learning'')) = [''machine learning'']"
    by code_simp
  have sp: "\<forall>(s, l)\<in>set (findall_spans cs (sorted_skills iteration) text 0).
        \<exists>p. match_at cs (sorted_skills iteration) text s = Some p \<and> l = length p"
    using findall_spans_matches by fastforce
  show ?thesis
    using match_at_longest[of cs iteration "text" i p] match_at_None[of cs iteration "text" i]
      sp findall_spans_apart[of cs "sorted_skills iteration" "text" 0] e1 e2
    by blast
qed

theorem longest_match_first_witness:
  "match_at False (sorted_skills [''machine'', ''machine learning''])
     ''expert in machine learning'' 10 = Some ''machine learning''
   \<and> alt_matches False ''expert in machine learning'' 10 ''machine''
   \<and> length ''machine'' \<le> length ''machine learning''
   \<and> alt_matches False ''expert in machine learning'' 10 ''machine learning''"
proof -
  have m: "match_at False (sorted_skills [''machine'', ''machine learning''])
     ''expert in machine learning'' 10 = Some ''machine learning''"
    by code_simp
  have a: "alt_matches False ''expert in machine learning'' 10 ''machine''"
    by code_simp
  have "''machine'' \<in> set [''machine'', ''machine learning'']" by simp
  with longest_match_first[of False "[''machine'', ''machine learning'']"
      "''expert in machine learning''" 10 "''machine learning''"] m a
  show ?thesis by blast
qed

text \<open>
  C1 asks that the matcher prefer the longest matchable string at each start position.
  The code misses it for a matchable string that ends in a non-word character: the
  trailing \<open>\b\<close> of the compiled pattern does not hold between \<open>+\<close> and a space. With
  the dictionary \<open>{c, c++}\<close>, in either iteration order, the pattern is \<open>\b(c\+\+|c)\b\<close>,
  and in the text \<open>c++ and c\<close> the match at position 0 is \<open>c\<close>, although \<open>c++\<close> stands
  there, followed by a space, and is longer: \<open>findall\<close> reports \<open>c\<close> twice and \<open>extract\<close>
  returns \<open>[c]\<close>.
\<close>

theorem longest_match_misses_delimited:
  "fst (extract (new_extractor False True True [] [''c'', ''c++'']) (StrVal ''c++ and c'')) = [''c'']
   \<and> fst (extract (new_extractor False True True [] [''c++'', ''c'']) (StrVal ''c++ and c'')) = [''c'']
   \<and> sorted_skills [''c'', ''c++''] = [''c++'', ''c'']
   \<and> findall False [''c++'', ''c''] ''c++ and c'' = [''c'', ''c'']
   \<and> findall_spans False [''c++'', ''c''] ''c++ and c'' 0 = [(0, 1), (8, 1)]
   \<and> match_at False [''c++'', ''c''] ''c++ and c'' 0 = Some ''c''
   \<and> literal_at False ''c++ and c'' 0 ''c++''
   \<and> \<not> is_word_char (''c++ and c'' ! 3)
   \<and> \<not> word_boundary ''c++ and c'' 3"
  by code_simp

section \<open>Document frequency\<close>

lemma counter_incr_keys:
  "map fst (counter_incr counts k) = (if k \<in> fst ` set counts then map fst counts else map fst counts @ [k])"
  by (induction counts k rule: counter_incr.induct) auto

lemma counter_incr_distinct:
  "distinct (map fst counts) \<Longrightarrow> distinct (map fst (counter_incr counts k))"
  by (simp add: counter_incr_keys)

lemma counter_incr_lookup:
  "map_of (counter_incr counts k) s
     = (if s = k then Some (case map_of counts k of None \<Rightarrow> 1 | Some c \<Rightarrow> c + 1) else map_of counts s)"
  by (induction counts k rule: counter_incr.induct) auto

lemma counter_incr_count:
  "count_of (counter_incr counts k) s = count_of counts s + (if s = k then 1 else 0)"
  by (simp add: count_of_def counter_incr_lookup split: option.splits)

lemma counter_incr_positive: "positive_counts counts \<Longrightarrow> positive_counts (counter_incr counts k)"
  by (induction counts k rule: counter_incr.induct) (auto simp: positive_counts_def)

lemma counter_update_distinct:
  "distinct (map fst counts) \<Longrightarrow> distinct (map fst (counter_update counts keys))"
  unfolding counter_update_def
  by (induction keys arbitrary: counts) (simp_all add: counter_incr_distinct)

lemma counter_update_positive:
  "positive_counts counts \<Longrightarrow> positive_counts (counter_update counts keys)"
  unfolding counter_update_def
  by (induction keys arbitrary: counts) (simp_all add: counter_incr_positive)

lemma counter_update_count:
  "count_of (counter_update counts keys) s = count_of counts s + count_list keys s"
  unfolding counter_update_def
  by (induction keys arbitrary: counts) (simp_all add: counter_incr_count)

lemma count_list_distinct: "distinct keys \<Longrightarrow> count_list keys s = (if s \<in> set keys then 1 else 0)"
  by (induction keys) auto

lemma document_frequency_fold:
  assumes "\<forall>xs. distinct (set_iter xs) \<and> set (set_iter xs) = set xs"
  shows "count_of (fold (\<lambda>cell skill_counts. counter_update skill_counts (unique_skills_of set_iter cell)) df counts) s
           = count_of counts s + length (filter (contains_skill s) df)"
proof (induction df arbitrary: counts)
  case Nil
  then show ?case by simp
next
  case (Cons cell df)
  have "count_list (unique_skills_of set_iter cell) s = (if contains_skill s cell then 1 else 0)"
    using assms by (cases cell) (simp_all add: unique_skills_of_def contains_skill_def count_list_distinct)
  then show ?case by (simp add: Cons.IH counter_update_count)
qed

lemma document_frequency_fold_inv:
  "distinct (map fst counts) \<Longrightarrow> positive_counts counts \<Longrightarrow>
   distinct (map fst (fold (\<lambda>cell skill_counts. counter_update skill_counts (unique_skills_of set_iter cell)) df counts))
   \<and> positive_counts (fold (\<lambda>cell skill_counts. counter_update skill_counts (unique_skills_of set_iter cell)) df counts)"
  by (induction df arbitrary: counts) (simp_all add: counter_update_distinct counter_update_positive)

lemma positive_lookup:
  "positive_counts counts \<Longrightarrow> map_of counts s = (if count_of counts s = 0 then None else Some (count_of counts s))"
  by (auto simp: positive_counts_def count_of_def split: option.splits dest!: map_of_SomeD)

text \<open>
  C5: the document frequency of a skill is the number of rows whose skill list contains
  it, however often the skill is repeated inside a row (a row that is not a list
  contains nothing); a skill contained in no row has no entry. So no frequency exceeds
  the number of rows. This holds for every order in which Python may iterate a set.
\<close>

theorem document_frequency_counts_documents:
  assumes "\<forall>xs. distinct (set_iter xs) \<and> set (set_iter xs) = set xs"
  shows "map_of (calculate_document_frequency set_iter df) s
           = (if length (filter (contains_skill s) df) = 0 then None
              else Some (length (filter (contains_skill s) df)))
       \<and> count_of (calculate_document_frequency set_iter df) s
           = length (filter (contains_skill s) df)
       \<and> count_of (calculate_document_frequency set_iter df) s \<le> length df
       \<and> distinct (map fst (calculate_document_frequency set_iter df))"
proof -
  let ?freq = "calculate_document_frequency set_iter df"
  have c: "count_of ?freq s = length (filter (contains_skill s) df)"
    unfolding calculate_document_frequency_def
    using document_frequency_fold[OF assms, of df "[]" s] by (simp add: count_of_def)
  have inv: "distinct (map fst ?freq) \<and> positive_counts ?freq"
    unfolding calculate_document_frequency_def
    by (rule document_frequency_fold_inv) (simp_all add: positive_counts_def)
  from positive_lookup[of ?freq s] inv c show ?thesis by simp
qed

theorem document_frequency_counts_documents_witness:
  "map_of (calculate_document_frequency remdups
      [Some [''python'', ''java'', ''python''], None, Some [''python'']]) ''python'' = Some 2"
proof -
  have h: "\<forall>xs :: string list. distinct (remdups xs) \<and> set (remdups xs) = set xs" by simp
  have n: "length (filter (contains_skill ''python'')
      [Some [''python'', ''java'', ''python''], None, Some [''python'']]) = 2"
    by (simp add: contains_skill_def)
  have "(2::nat) \<noteq> 0" by simp
  with document_frequency_counts_documents[OF h,
      where s = "''python''"
        and df = "[Some [''python'', ''java'', ''python''], None, Some [''python'']]",
      unfolded n]
  show ?thesis by (simp only: if_False)
qed

section \<open>Rounding to a double\<close>

lemma round_half_even_of_int [simp]: "round_half_even (of_int k) = k"
  by (simp add: round_half_even_def)

lemma round_half_even_range:
  "\<lfloor>y\<rfloor> \<le> round_half_even y \<and> round_half_even y \<le> \<lfloor>y\<rfloor> + 1"
  by (simp add: round_half_even_def Let_def)

lemma round_half_even_mono:
  assumes "y \<le> z"
  shows "round_half_even y \<le> round_half_even z"
proof (cases "\<lfloor>y\<rfloor> = \<lfloor>z\<rfloor>")
  case True
  with assms have "y - of_int \<lfloor>z\<rfloor> \<le> z - of_int \<lfloor>z\<rfloor>" by simp
  with True show ?thesis
    by (auto simp: round_half_even_def Let_def)
next
  case False
  with assms have "\<lfloor>y\<rfloor> + 1 \<le> \<lfloor>z\<rfloor>"
    using floor_mono[of y z] by linarith
  with round_half_even_range[of y] round_half_even_range[of z] show ?thesis by linarith
qed

lemma two_powi_less_cancel: "(2::rat) powi a < 2 powi b \<Longrightarrow> a < b"
  using power_int_increasing[of b a "2::rat"] by (cases "a < b") auto

lemma two_powi_le: "a \<le> b \<Longrightarrow> (2::rat) powi a \<le> 2 powi b"
  by (rule power_int_increasing) simp_all

lemma two_powi_add: "(2::rat) powi (a + b) = 2 powi a * 2 powi b"
  by (rule power_int_add) simp

lemma two_powi_diff: "(2::rat) powi (a - b) = 2 powi a / 2 powi b"
  by (rule power_int_diff) simp

lemma two_powi_nonneg_int: "0 \<le> a \<Longrightarrow> (2::rat) powi a = of_int (2 ^ nat a)"
  by (simp add: power_int_def)

lemma lg_bounds:
  assumes "0 < x"
  shows "2 powi (lg x) \<le> x \<and> x < 2 powi (lg x + 1)"
proof -
  obtain p q where pq: "quotient_of x = (p, q)" by (cases "quotient_of x")
  then have q: "0 < q" and x: "x = of_int p / of_int q"
    using quotient_of_denom_pos quotient_of_div by auto
  with assms have p: "0 < p"
    by (simp add: zero_less_divide_iff)
  let ?d = "bitlen p - bitlen q"
  from bitlen_bounds[OF p] have "1 \<le> bitlen p"
    using bitlen_nonneg[of p] p by (auto simp: bitlen_alt_def)
  from bitlen_bounds[OF q] have "1 \<le> bitlen q"
    using q by (auto simp: bitlen_alt_def)
  have pb: "2 powi (bitlen p - 1) \<le> (of_int p :: rat) \<and> (of_int p :: rat) < 2 powi (bitlen p)"
  proof -
    from bitlen_bounds[OF p] have "(of_int (2 ^ nat (bitlen p - 1)) :: rat) \<le> of_int p"
      and "(of_int p :: rat) < of_int (2 ^ nat (bitlen p))"
      by (simp_all only: of_int_le_iff of_int_less_iff)
    with \<open>1 \<le> bitlen p\<close> show ?thesis
      by (simp add: two_powi_nonneg_int)
  qed
  have qb: "2 powi (bitlen q - 1) \<le> (of_int q :: rat) \<and> (of_int q :: rat) < 2 powi (bitlen q)"
  proof -
    from bitlen_bounds[OF q] have "(of_int (2 ^ nat (bitlen q - 1)) :: rat) \<le> of_int q"
      and "(of_int q :: rat) < of_int (2 ^ nat (bitlen q))"
      by (simp_all only: of_int_le_iff of_int_less_iff)
    with \<open>1 \<le> bitlen q\<close> show ?thesis
      by (simp add: two_powi_nonneg_int)
  qed
  have qpos: "(0::rat) < of_int q" using q by simp
  have upper: "x < 2 powi (?d + 1)"
  proof -
    have "x < 2 powi (bitlen p) / of_int q"
      unfolding x using pb qpos by (simp add: divide_strict_right_mono)
    also have "\<dots> \<le> 2 powi (bitlen p) / 2 powi (bitlen q - 1)"
      using qb qpos by (intro divide_left_mono) (simp_all add: zero_less_mult_iff)
    also have "\<dots> = 2 powi (bitlen p - (bitlen q - 1))"
      by (simp only: two_powi_diff)
    also have "\<dots> = 2 powi (?d + 1)"
      by (simp add: algebra_simps)
    finally show ?thesis .
  qed
  have lower: "2 powi (?d - 1) \<le> x"
  proof -
    have "?d - 1 = (bitlen p - 1) - bitlen q" by simp
    then have "(2::rat) powi (?d - 1) = 2 powi (bitlen p - 1) / 2 powi (bitlen q)"
      by (simp only: two_powi_diff)
    also have "\<dots> \<le> of_int p / 2 powi (bitlen q)"
      using pb by (simp add: divide_right_mono)
    also have "\<dots> \<le> of_int p / of_int q"
      using qb p qpos by (intro divide_left_mono) (simp_all add: zero_less_mult_iff)
    finally show ?thesis unfolding x .
  qed
  show ?thesis
  proof (cases "2 powi ?d \<le> x")
    case True
    then have "lg x = ?d" by (simp add: lg_def pq)
    with True upper show ?thesis by simp
  next
    case False
    then have "lg x = ?d - 1" by (simp add: lg_def pq)
    with False lower show ?thesis by simp
  qed
qed

lemma lg_mono:
  assumes "0 < x" "x \<le> y"
  shows "lg x \<le> lg y"
proof -
  from assms have "0 < y" by simp
  from lg_bounds[OF assms(1)] lg_bounds[OF this] assms(2)
  have "2 powi (lg x) < (2::rat) powi (lg y + 1)" by linarith
  from two_powi_less_cancel[OF this] show ?thesis by simp
qed

lemma fl_pos:
  assumes "0 < x"
  shows "fl x = of_int (round_half_even (x / 2 powi (max (lg x - 52) (- 1074))))
                  * 2 powi (max (lg x - 52) (- 1074))"
  using assms by (simp add: fl_def Let_def)

lemma fl_minus: "fl (- x) = - fl x"
  by (simp add: fl_def Let_def sgn_minus)

lemma fl_zero: "fl 0 = 0"
  by (simp add: fl_def)

lemma round_half_even_nonneg: "0 \<le> y \<Longrightarrow> 0 \<le> round_half_even y"
  using round_half_even_range[of y] by (simp add: order_trans[of 0 "\<lfloor>y\<rfloor>"])

lemma fl_nonneg:
  assumes "0 \<le> x"
  shows "0 \<le> fl x"
proof (cases "x = 0")
  case True
  then show ?thesis by (simp add: fl_zero)
next
  case False
  with assms have "0 < x" by simp
  then have "0 \<le> x / 2 powi (max (lg x - 52) (- 1074))" by simp
  from round_half_even_nonneg[OF this] show ?thesis
    unfolding fl_pos[OF \<open>0 < x\<close>] by simp
qed

lemma fl_mono_pos:
  assumes "0 < x" "x \<le> y"
  shows "fl x \<le> fl y"
proof -
  from assms have ypos: "0 < y" by simp
  let ?ex = "max (lg x - 52) (- 1074)"
  let ?ey = "max (lg y - 52) (- 1074)"
  from lg_mono[OF assms] have e: "?ex \<le> ?ey" by simp
  show ?thesis
  proof (cases "?ex = ?ey")
    case True
    from assms(2) have "x / 2 powi ?ex \<le> y / 2 powi ?ex"
      by (simp add: divide_right_mono)
    from round_half_even_mono[OF this]
    have "(of_int (round_half_even (x / 2 powi ?ex)) :: rat)
            \<le> of_int (round_half_even (y / 2 powi ?ex))"
      by simp
    then have "of_int (round_half_even (x / 2 powi ?ex)) * 2 powi ?ex
            \<le> of_int (round_half_even (y / 2 powi ?ex)) * (2::rat) powi ?ex"
      by (intro mult_right_mono) simp_all
    then show ?thesis
      unfolding fl_pos[OF assms(1)] fl_pos[OF ypos] True[symmetric] .
  next
    case False
    from le_neq_trans[OF e False] have lt: "?ex < ?ey" .
    then have ey: "?ey = lg y - 52" and lgs: "lg x + 1 \<le> lg y"
      by linarith+
    let ?k = "2 ^ nat (lg y - ?ex) :: int"
    from lt ey have kexp: "0 \<le> lg y - ?ex" by simp
    have "x < 2 powi (lg x + 1)" using lg_bounds[OF assms(1)] by simp
    also have "\<dots> \<le> 2 powi (lg y)" using lgs by (rule two_powi_le)
    finally have "x / 2 powi ?ex \<le> 2 powi (lg y) / 2 powi ?ex"
      by (simp add: divide_right_mono)
    also have "\<dots> = 2 powi (lg y - ?ex)" by (simp only: two_powi_diff)
    also have "\<dots> = of_int ?k" using kexp by (rule two_powi_nonneg_int)
    finally have "x / 2 powi ?ex \<le> of_int ?k" .
    from round_half_even_mono[OF this] have "round_half_even (x / 2 powi ?ex) \<le> ?k"
      by (simp only: round_half_even_of_int)
    then have "(of_int (round_half_even (x / 2 powi ?ex)) :: rat) \<le> of_int ?k"
      by (simp only: of_int_le_iff)
    then have "of_int (round_half_even (x / 2 powi ?ex)) * 2 powi ?ex
                 \<le> of_int ?k * (2::rat) powi ?ex"
      by (intro mult_right_mono) simp_all
    also have "of_int ?k * (2::rat) powi ?ex = 2 powi (lg y - ?ex) * 2 powi ?ex"
      using kexp by (simp only: two_powi_nonneg_int)
    also have "\<dots> = 2 powi (lg y)"
      by (simp flip: two_powi_add)
    finally have upper: "fl x \<le> 2 powi (lg y)"
      unfolding fl_pos[OF assms(1)] .
    have "(of_int (2 ^ 52) :: rat) = 2 powi 52"
      by (simp add: power_int_def)
    also have "\<dots> = 2 powi (lg y) / 2 powi ?ey"
      unfolding ey by (simp flip: two_powi_diff)
    also have "\<dots> \<le> y / 2 powi ?ey"
      using lg_bounds[OF ypos] by (simp add: divide_right_mono)
    finally have "of_int (2 ^ 52) \<le> y / 2 powi ?ey" .
    from round_half_even_mono[OF this]
    have "(2 ^ 52 :: int) \<le> round_half_even (y / 2 powi ?ey)"
      by (simp only: round_half_even_of_int)
    then have "(of_int (2 ^ 52) :: rat) \<le> of_int (round_half_even (y / 2 powi ?ey))"
      by (simp only: of_int_le_iff)
    then have low: "of_int (2 ^ 52) * (2::rat) powi ?ey
                 \<le> of_int (round_half_even (y / 2 powi ?ey)) * 2 powi ?ey"
      by (intro mult_right_mono) simp_all
    have scale: "of_int (2 ^ 52) * (2::rat) powi ?ey = 2 powi (lg y)"
    proof -
      have "(of_int (2 ^ 52) :: rat) = 2 powi 52" by (simp add: power_int_def)
      then have "of_int (2 ^ 52) * (2::rat) powi ?ey = 2 powi (52 + ?ey)"
        by (simp only: two_powi_add)
      also have "52 + ?ey = lg y" using ey by simp
      finally show ?thesis .
    qed
    from low have "2 powi (lg y) \<le> fl y"
      unfolding fl_pos[OF ypos] scale .
    with upper show ?thesis by (rule order_trans)
  qed
qed

lemma fl_mono:
  assumes "x \<le> y"
  shows "fl x \<le> fl y"
proof -
  consider "0 < x" | "x \<le> 0" "0 \<le> y" | "y < 0" by linarith
  then show ?thesis
  proof cases
    case 1
    from this assms show ?thesis by (rule fl_mono_pos)
  next
    case 2
    from fl_nonneg[of "- x"] 2(1) have "fl x \<le> 0" by (simp add: fl_minus)
    with fl_nonneg[OF 2(2)] show ?thesis by simp
  next
    case 3
    with assms have "0 < - y" "- y \<le> - x" by simp_all
    from fl_mono_pos[OF this] show ?thesis by (simp add: fl_minus)
  qed
qed

lemma fl_one: "fl 1 = 1"
  by code_simp

lemma fl_hundred: "fl 100 = 100"
  by code_simp

lemma two_powi_1024_pos: "(0::rat) < 2 powi 1024"
  by simp

lemma to_float_finite: "0 \<le> x \<Longrightarrow> x \<le> 100 \<Longrightarrow> to_float x = Finite (fl x)"
proof -
  assume "0 \<le> x" "x \<le> 100"
  then have "0 \<le> fl x" "fl x \<le> 100"
    using fl_nonneg[of x] fl_mono[of x 100] by (simp_all add: fl_hundred)
  moreover have "(100::rat) < 2 powi 1024"
    using two_powi_le[of 7 1024] by (simp add: power_int_def)
  ultimately show ?thesis
    by (simp add: to_float_def Let_def)
qed

lemma float_le_refl: "float_le a a"
  by (cases a) simp_all

lemma float_le_antisym: "float_le a b \<Longrightarrow> float_le b a \<Longrightarrow> a = b"
  by (cases a; cases b) simp_all

lemma float_le_total: "float_le a b \<or> float_le b a"
  by (cases a; cases b) auto

lemma to_float_mono:
  assumes "x \<le> y"
  shows "float_le (to_float x) (to_float y)"
  using fl_mono[OF assms] two_powi_1024_pos
  by (auto simp: to_float_def Let_def)

lemma times100_mono: "float_le a b \<Longrightarrow> float_le (times100 a) (times100 b)"
proof (cases a; cases b)
  fix x y
  assume "float_le a b" "a = Finite x" "b = Finite y"
  then show ?thesis using to_float_mono[of "x * 100" "y * 100"] by simp
next
  fix x
  assume "a = Finite x" "b = PosInf"
  then show ?thesis by (cases "to_float (x * 100)") simp_all
next
  fix y
  assume "a = PosInf" "b = Finite y" "float_le a b"
  then show ?thesis by simp
qed simp_all

section \<open>Top-N ranking\<close>

lemma to_float_zero: "to_float 0 = Finite 0"
  using to_float_finite[of 0] by (simp add: fl_zero)

lemma truediv_le:
  assumes "0 < b" "a \<le> b"
  shows "truediv a b = Inr (Finite (fl (of_nat a / of_nat b)))"
proof -
  from assms have "(0::rat) \<le> of_nat a / of_nat b" "(of_nat a / of_nat b :: rat) \<le> 100"
    by (simp_all add: divide_le_eq)
  from to_float_finite[OF this] assms(1) show ?thesis
    by (simp add: truediv_def)
qed

lemma percentage_of_zero: "percentage_of count 0 = Inr (Finite 0)"
  by (simp add: percentage_of_def)

lemma percentage_of_Inr:
  assumes "percentage_of count n_docs = Inr pct"
  shows "pct = times100 (to_float (if n_docs = 0 then 0 else of_nat count / of_nat n_docs))"
proof (cases "n_docs = 0")
  case True
  have "times100 (to_float 0) = Finite 0" by (simp add: to_float_zero)
  moreover from assms True have "pct = Finite 0" by (simp add: percentage_of_def)
  ultimately show ?thesis using True by simp
next
  case False
  with assms show ?thesis
    by (auto simp: percentage_of_def truediv_def split: sum.splits pyfloat.splits)
qed

lemma percentage_of_le:
  assumes "0 < n_docs" "count \<le> n_docs"
  shows "percentage_of count n_docs
           = Inr (Finite (fl (fl (of_nat count / of_nat n_docs) * 100)))
       \<and> 0 \<le> fl (fl (of_nat count / of_nat n_docs) * 100)
       \<and> fl (fl (of_nat count / of_nat n_docs) * 100) \<le> 100"
proof -
  let ?q = "fl (of_nat count / of_nat n_docs)"
  from assms have "(0::rat) \<le> of_nat count / of_nat n_docs" "(of_nat count / of_nat n_docs :: rat) \<le> 1"
    by (simp_all add: divide_le_eq)
  then have q: "0 \<le> ?q" "?q \<le> 1"
    using fl_nonneg[of "of_nat count / of_nat n_docs"] fl_mono[of "of_nat count / of_nat n_docs" 1]
    by (simp_all add: fl_one)
  then have s: "0 \<le> ?q * 100" "?q * 100 \<le> 100" by simp_all
  from to_float_finite[OF s] truediv_le[OF assms] assms(1)
  have "percentage_of count n_docs = Inr (Finite (fl (?q * 100)))"
    by (simp add: percentage_of_def)
  moreover from s have "0 \<le> fl (?q * 100)" "fl (?q * 100) \<le> 100"
    using fl_nonneg[of "?q * 100"] fl_mono[of "?q * 100" 100] by (simp_all add: fl_hundred)
  ultimately show ?thesis by simp
qed

lemma percentage_of_error: "percentage_of count n_docs = Inl e \<Longrightarrow> e = OverflowError"
  by (auto simp: percentage_of_def truediv_def split: if_splits sum.splits pyfloat.splits)

lemma percentages_error: "percentages n_docs items = Inl e \<Longrightarrow> e = OverflowError"
  by (induction items) (auto split: sum.splits dest: percentage_of_error)

lemma percentages_le:
  assumes "\<forall>(skill, count)\<in>set items. count \<le> n_docs"
  shows "percentages n_docs items
     = Inr (map (\<lambda>(skill, count).
          (skill, if n_docs = 0 then Finite 0
                  else Finite (fl (fl (of_nat count / of_nat n_docs) * 100)))) items)"
  using assms
proof (induction items)
  case Nil
  then show ?case by simp
next
  case (Cons item items)
  obtain skill count where item: "item = (skill, count)" by (cases item)
  with Cons.prems have c: "count \<le> n_docs" by simp
  have "percentage_of count n_docs
          = Inr (if n_docs = 0 then Finite 0
                 else Finite (fl (fl (of_nat count / of_nat n_docs) * 100)))"
    using percentage_of_le[of n_docs count] c by (cases "n_docs = 0") (simp_all add: percentage_of_zero)
  with Cons item show ?case by simp
qed

lemma top_entries_items:
  "top_entries pcts items = Inr es \<Longrightarrow> map (\<lambda>e. (ts_skill e, ts_count e)) es = items"
  by (induction items arbitrary: es) (auto split: option.splits sum.splits)

lemma top_entries_total:
  "fst ` set items \<subseteq> fst ` set pcts \<Longrightarrow> \<exists>es. top_entries pcts items = Inr es"
proof (induction items)
  case Nil
  then show ?case by simp
next
  case (Cons item items)
  obtain skill count where item: "item = (skill, count)" by (cases item)
  from Cons.prems item have "skill \<in> fst ` set pcts" by simp
  then obtain p where "map_of pcts skill = Some p"
    by (metis domD dom_map_of_conv_image_fst)
  moreover from Cons obtain es where "top_entries pcts items = Inr es" by auto
  ultimately show ?case using item by simp
qed

lemma rank_by_frequency_set:
  "set (rank_by_frequency items) = set items \<and> length (rank_by_frequency items) = length items"
  by (simp add: rank_by_frequency_def)

lemma rank_by_frequency_descending:
  "sorted (map (\<lambda>(skill, count). - int count) (rank_by_frequency items))"
  by (simp add: rank_by_frequency_def)

lemma rank_by_frequency_stable:
  "filter (\<lambda>(skill, count). count = k) (rank_by_frequency items)
     = filter (\<lambda>(skill, count). count = k) items"
proof -
  have eq: "(\<lambda>(skill, count). count = k)
              = (\<lambda>item. (case item of (skill :: string, count) \<Rightarrow> - int count) = - int k)"
    by (auto simp: fun_eq_iff)
  show ?thesis
    unfolding rank_by_frequency_def eq by (rule sort_key_stable)
qed

lemma descending_take_drop:
  assumes "sorted (map (\<lambda>(skill, count). - int count) (ranking :: (string \<times> nat) list))"
  shows "\<forall>(s, c)\<in>set (take n ranking). \<forall>(s', c')\<in>set (drop n ranking). c' \<le> c"
proof -
  have "sorted (map (\<lambda>(skill, count). - int count) (take n ranking @ drop n ranking))"
    using assms by simp
  then show ?thesis
    unfolding map_append sorted_append by fastforce
qed

lemma slice_to_subset: "set (slice_to n xs) \<subseteq> set xs"
  by (auto simp: slice_to_def dest: in_set_takeD)

lemma top_entries_error: "top_entries pcts items = Inl e \<Longrightarrow> e = KeyError"
  by (induction items) (auto split: option.splits sum.splits)

lemma document_frequency_bound:
  assumes "\<forall>xs. distinct (set_iter xs) \<and> set (set_iter xs) = set xs"
    and "(s, c) \<in> set (calculate_document_frequency set_iter df)"
  shows "c \<le> length df"
proof -
  let ?freq = "calculate_document_frequency set_iter df"
  have "distinct (map fst ?freq)"
    unfolding calculate_document_frequency_def
    using document_frequency_fold_inv[of "[]" set_iter df] by (simp add: positive_counts_def)
  with assms(2) have "map_of ?freq s = Some c" by simp
  then have "count_of ?freq s = c" by (simp add: count_of_def)
  moreover have "count_of ?freq s = length (filter (contains_skill s) df)"
    unfolding calculate_document_frequency_def
    using document_frequency_fold[OF assms(1), of df "[]" s] by (simp add: count_of_def)
  ultimately have "c = length (filter (contains_skill s) df)" by simp
  then show ?thesis by (simp only: length_filter_le)
qed

lemma aggregate_group_total:
  assumes "\<forall>xs. distinct (set_iter xs) \<and> set (set_iter xs) = set xs"
  shows "\<exists>agg. aggregate_group set_iter top_n df = Inr agg
           \<and> skill_percentages agg
               = map (\<lambda>(skill, count).
                   (skill, if length df = 0 then Finite 0
                           else Finite (fl (fl (of_nat count / of_nat (length df)) * 100))))
                   (skill_frequencies agg)"
proof -
  let ?freq = "calculate_document_frequency set_iter df"
  let ?pcts = "map (\<lambda>(skill, count).
                   (skill, if length df = 0 then Finite 0
                           else Finite (fl (fl (of_nat count / of_nat (length df)) * 100)))) ?freq"
  have "\<forall>(skill, count)\<in>set ?freq. count \<le> length df"
    using document_frequency_bound[OF assms] by blast
  from percentages_le[OF this] have p: "percentages (length df) ?freq = Inr ?pcts" .
  have keys: "map fst ?pcts = map fst ?freq"
    by (simp add: case_prod_beta o_def)
  have "set (slice_to top_n (rank_by_frequency ?freq)) \<subseteq> set ?freq"
    using rank_by_frequency_set[of ?freq] slice_to_subset by fastforce
  then have "fst ` set (slice_to top_n (rank_by_frequency ?freq)) \<subseteq> fst ` set ?pcts"
    using keys by (metis image_mono list.set_map)
  from top_entries_total[OF this] p show ?thesis
    by (auto simp: aggregate_group_def Let_def)
qed

lemma aggregate_group_error:
  "aggregate_group set_iter top_n df = Inl e \<Longrightarrow> e = OverflowError \<or> e = KeyError"
  by (auto simp: aggregate_group_def Let_def split: sum.splits
      dest: percentages_error top_entries_error)

text \<open>
  C2, as the code has it: the top-N list is the first N entries of the frequency table
  sorted by descending document frequency with a stable sort. So it lists N
  highest-frequency skills (no skill outside it has a higher frequency than one inside
  it), in descending order of frequency, and skills of equal frequency stay in the order
  in which the frequency table holds them, the order of first insertion; the skill
  names are not compared.
\<close>

theorem top_n_ranking:
  assumes "aggregate_group set_iter top_n df = Inr agg"
  shows "map (\<lambda>e. (ts_skill e, ts_count e)) (top_skills agg)
           = slice_to top_n (rank_by_frequency (skill_frequencies agg))
       \<and> skill_frequencies agg = calculate_document_frequency set_iter df
       \<and> sorted (map (\<lambda>(skill, count). - int count) (rank_by_frequency (skill_frequencies agg)))
       \<and> set (rank_by_frequency (skill_frequencies agg)) = set (skill_frequencies agg)
       \<and> length (rank_by_frequency (skill_frequencies agg)) = length (skill_frequencies agg)
       \<and> (\<forall>k. filter (\<lambda>(skill, count). count = k) (rank_by_frequency (skill_frequencies agg))
                = filter (\<lambda>(skill, count). count = k) (skill_frequencies agg))
       \<and> (0 \<le> top_n \<longrightarrow>
            slice_to top_n (rank_by_frequency (skill_frequencies agg))
              = take (nat top_n) (rank_by_frequency (skill_frequencies agg))
            \<and> (\<forall>(s, c)\<in>set (take (nat top_n) (rank_by_frequency (skill_frequencies agg))).
                 \<forall>(s', c')\<in>set (drop (nat top_n) (rank_by_frequency (skill_frequencies agg))).
                   c' \<le> c))"
proof -
  from assms have f: "skill_frequencies agg = calculate_document_frequency set_iter df"
    and t: "\<exists>pcts. top_entries pcts (slice_to top_n (rank_by_frequency (skill_frequencies agg)))
              = Inr (top_skills agg)"
    by (auto simp: aggregate_group_def Let_def split: sum.splits)
  from t have "map (\<lambda>e. (ts_skill e, ts_count e)) (top_skills agg)
           = slice_to top_n (rank_by_frequency (skill_frequencies agg))"
    using top_entries_items by blast
  moreover have "0 \<le> top_n \<longrightarrow>
      slice_to top_n (rank_by_frequency (skill_frequencies agg))
        = take (nat top_n) (rank_by_frequency (skill_frequencies agg))"
    by (simp add: slice_to_def)
  ultimately show ?thesis
    using f rank_by_frequency_set[of "skill_frequencies agg"]
      rank_by_frequency_descending[of "skill_frequencies agg"]
      rank_by_frequency_stable[of _ "skill_frequencies agg"]
      descending_take_drop[OF rank_by_frequency_descending, of "nat top_n" "skill_frequencies agg"]
    by simp
qed

lemma aggregate_tie_example:
  "aggregate_group remdups 1 [Some [''b''], Some [''a'']]
     = Inr \<lparr>total_jds = 2, unique_skills = 2,
            skill_frequencies = [(''b'', 1), (''a'', 1)],
            skill_percentages = [(''b'', Finite 50), (''a'', Finite 50)],
            top_skills = [\<lparr>ts_skill = ''b'', ts_count = 1, ts_percentage = Finite 50\<rparr>]\<rparr>"
  by code_simp

theorem top_n_ranking_witness:
  "map (\<lambda>e. (ts_skill e, ts_count e))
     (top_skills (projr (aggregate_group remdups 1 [Some [''b''], Some [''a'']])))
   = slice_to 1 (rank_by_frequency
       (skill_frequencies (projr (aggregate_group remdups 1 [Some [''b''], Some [''a'']]))))"
proof -
  let ?agg = "projr (aggregate_group remdups 1 [Some [''b''], Some [''a'']])"
  have a: "aggregate_group remdups 1 [Some [''b''], Some [''a'']] = Inr ?agg"
    by (simp add: aggregate_tie_example)
  from top_n_ranking[OF a] show ?thesis by blast
qed

theorem top_n_tie_counterexample:
  "map ts_skill (top_skills (projr (aggregate_group remdups 1 [Some [''b''], Some [''a'']])))
     = [''b'']
   \<and> skill_frequencies (projr (aggregate_group remdups 1 [Some [''b''], Some [''a'']]))
     = [(''b'', 1), (''a'', 1)]
   \<and> (''a'' :: string) < ''b''"
  by (simp add: aggregate_tie_example)

section \<open>Role labels\<close>

lemma find_first:
  "P x \<Longrightarrow> \<forall>y\<in>set before. \<not> P y \<Longrightarrow> find P (before @ x # after) = Some x"
  by (induction before) auto

text \<open>
  C6, as the code has it: a missing label (\<open>None\<close>, NaN or the empty string) becomes
  \<open>Unknown\<close>; a label whose lowered and stripped form is among the lowered variations of
  a canonical role becomes the first such canonical role of the mapping; every other
  label is returned as it is, stripped of surrounding whitespace.
\<close>

theorem normalize_role_cases:
  "normalize_role role_mappings RoleNone = ''Unknown''
   \<and> normalize_role role_mappings RoleNaN = ''Unknown''
   \<and> normalize_role role_mappings (RoleStr []) = ''Unknown''
   \<and> (r \<noteq> [] \<longrightarrow>
        (\<forall>(c, vs)\<in>set role_mappings. strip (lower_str r) \<notin> set (map lower_str vs)) \<longrightarrow>
        normalize_role role_mappings (RoleStr r) = strip r)
   \<and> (r \<noteq> [] \<longrightarrow> role_mappings = before @ (canonical, variants) # after \<longrightarrow>
        strip (lower_str r) \<in> set (map lower_str variants) \<longrightarrow>
        (\<forall>(c, vs)\<in>set before. strip (lower_str r) \<notin> set (map lower_str vs)) \<longrightarrow>
        normalize_role role_mappings (RoleStr r) = canonical)"
proof -
  let ?P = "\<lambda>(c, vs). strip (lower_str r) \<in> set (map lower_str vs)"
  have unmapped: "normalize_role role_mappings (RoleStr r) = strip r"
    if "r \<noteq> []" "\<forall>(c, vs)\<in>set role_mappings. strip (lower_str r) \<notin> set (map lower_str vs)"
  proof -
    from that(2) have "find ?P role_mappings = None"
      by (auto simp: find_None_iff)
    with that(1) show ?thesis by (simp add: normalize_role_def)
  qed
  have mapped: "normalize_role role_mappings (RoleStr r) = canonical"
    if "r \<noteq> []" "role_mappings = before @ (canonical, variants) # after"
      "strip (lower_str r) \<in> set (map lower_str variants)"
      "\<forall>(c, vs)\<in>set before. strip (lower_str r) \<notin> set (map lower_str vs)"
  proof -
    have "find ?P (before @ (canonical, variants) # after) = Some (canonical, variants)"
      by (rule find_first) (use that(3,4) in auto)
    with that(1,2) show ?thesis by (simp add: normalize_role_def)
  qed
  show ?thesis
    using unmapped mapped by (simp add: normalize_role_def)
qed

lemma normalize_role_examples:
  "normalize_role [(''Data Scientist'', [''DS'', ''data scientist''])] (RoleStr '' Chef '') = ''Chef''"
  "normalize_role [(''Data Scientist'', [''DS'', ''data scientist''])] (RoleStr ''  ds '')
     = ''Data Scientist''"
  "strip (lower_str '' Chef '') = ''chef''"
  "strip '' Chef '' = ''Chef''"
  "lower_str ''DS'' = ''ds''"
  "lower_str ''data scientist'' = ''data scientist''"
  by code_simp+

theorem normalize_role_cases_witness:
  "normalize_role [(''Data Scientist'', [''DS'', ''data scientist''])] (RoleStr '' Chef '') = ''Chef''"
proof -
  have "\<forall>(c, vs)\<in>set [(''Data Scientist'', [''DS'', ''data scientist''])].
          strip (lower_str '' Chef '') \<notin> set (map lower_str vs)"
    by (simp add: normalize_role_examples)
  with normalize_role_cases[where r = "'' Chef ''"
      and role_mappings = "[(''Data Scientist'', [''DS'', ''data scientist''])]"]
  show ?thesis by (simp add: normalize_role_examples)
qed

theorem normalize_role_unmapped_counterexample:
  "normalize_role [(''Data Scientist'', [''DS'', ''data scientist''])] (RoleStr '' Chef '')
     \<noteq> ''Unknown''"
  by (simp add: normalize_role_examples)

section \<open>Loading a dictionary\<close>

lemma load_lines_no_terms:
  "\<forall>line\<in>set lines. strip line = [] \<or> take 1 (strip line) = ''#''
   \<Longrightarrow> load_lines lines loaded duplicates = (loaded, duplicates)"
  by (induction lines) (simp_all add: Let_def)

text \<open>
  C3, as the code has it: a path that does not exist is not an error; loading returns a
  new empty set and leaves the dictionary as it was, which is the result for a readable
  source without terms except that the latter counts one more loaded file. A source
  that exists but cannot be opened fails with the \<open>OSError\<close> of \<open>open\<close>.
\<close>

theorem load_from_file_cases:
  "(fs file_path = Missing \<longrightarrow>
      load_from_file fs d h file_path = Inr (length h, d, h @ [{}]))
   \<and> (fs file_path = Unreadable \<longrightarrow> load_from_file fs d h file_path = Inl OSError)
   \<and> (fs file_path = Readable lines \<longrightarrow>
        (\<forall>line\<in>set lines. strip line = [] \<or> take 1 (strip line) = ''#'') \<longrightarrow>
        load_from_file fs d h file_path
          = Inr (length h,
                 d\<lparr>d_stats := (d_stats d)\<lparr>files_loaded := files_loaded (d_stats d) + 1\<rparr>\<rparr>,
                 h @ [{}]))"
  by (auto simp: load_from_file_def alloc_def load_lines_no_terms Let_def)

theorem load_from_file_cases_witness:
  "load_from_file (\<lambda>p. Unreadable) (fst (new_dictionary [])) (snd (new_dictionary []))
     ''locked.txt'' = Inl OSError
   \<and> load_from_file (\<lambda>p. Readable [''# skills'', ''  ''])
       (fst (new_dictionary [])) (snd (new_dictionary [])) ''empty.txt''
     = Inr (length (snd (new_dictionary [])),
            (fst (new_dictionary []))
              \<lparr>d_stats := (d_stats (fst (new_dictionary [])))
                 \<lparr>files_loaded := files_loaded (d_stats (fst (new_dictionary []))) + 1\<rparr>\<rparr>,
            snd (new_dictionary []) @ [{}])"
proof -
  have blank: "\<forall>line\<in>set [''# skills'', ''  '']. strip line = [] \<or> take 1 (strip line) = ''#''"
    by code_simp
  show ?thesis
    using load_from_file_cases[of "\<lambda>p. Unreadable" "''locked.txt''"
        "fst (new_dictionary [])" "snd (new_dictionary [])"]
      load_from_file_cases[of "\<lambda>p. Readable [''# skills'', ''  '']" "''empty.txt''"
        "fst (new_dictionary [])" "snd (new_dictionary [])" "[''# skills'', ''  '']"]
      blank
    by simp
qed

theorem load_missing_file_counterexample:
  "load_from_file (\<lambda>p. Missing) (fst (new_dictionary [])) (snd (new_dictionary []))
     ''missing.txt''
   = Inr (4, fst (new_dictionary []), [{}, {}, {}, {}, {}])"
  by (simp add: load_from_file_def alloc_def new_dictionary_def)

section \<open>Returned sets are copies\<close>

lemma mutate_length: "length (fold (mutate a) ms h) = length h"
  by (induction ms arbitrary: h) (simp_all add: mutate_def)

lemma mutate_other: "b \<noteq> a \<Longrightarrow> fold (mutate a) ms h ! b = h ! b"
  by (induction ms arbitrary: h) (simp_all add: mutate_def)

lemma getter_result:
  assumes "r = get_all_skills d h \<or> r = get_skills_by_category d h category"
  shows "length h \<le> fst r \<and> fst r < length (snd r)
       \<and> (\<forall>b < length h. snd r ! b = h ! b)"
  using assms
  by (auto simp: get_all_skills_def get_skills_by_category_def alloc_def nth_append Let_def
      split: option.splits)

lemma frame_after_mutation:
  assumes "r = get_all_skills d h \<or> r = get_skills_by_category d h category"
    and "b < length h"
  shows "fold (mutate (fst r)) ms (snd r) ! b = h ! b"
proof -
  from getter_result[OF assms(1)] assms(2) have "b \<noteq> fst r" and "snd r ! b = h ! b"
    by auto
  then show ?thesis by (simp add: mutate_other)
qed

lemma find_cong_set: "(\<And>x. x \<in> set xs \<Longrightarrow> P x = Q x) \<Longrightarrow> find P xs = find Q xs"
  by (induction xs) auto

lemma map_of_in_set: "map_of xs k = Some v \<Longrightarrow> (k, v) \<in> set xs"
  by (rule map_of_SomeD)

text \<open>
  C10: the sets returned by \<open>get_all_skills\<close> and \<open>get_skills_by_category\<close> are new
  objects. Whatever sequence of mutations a caller applies to a returned set, the
  dictionary answers \<open>contains\<close> and \<open>get_category\<close> as before, and \<open>get_all_skills\<close> and
  \<open>get_skills_by_category\<close> return sets with the same elements as before.
\<close>

theorem returned_sets_are_copies:
  assumes "dictionary_ok d h"
    and "r = get_all_skills d h \<or> r = get_skills_by_category d h category"
    and "h' = fold (mutate (fst r)) ms (snd r)"
  shows "contains d h' skill = contains d h skill
       \<and> get_category d h' skill = get_category d h skill
       \<and> contents (get_all_skills d h') = contents (get_all_skills d h)
       \<and> contents (get_skills_by_category d h' c) = contents (get_skills_by_category d h c)
       \<and> dictionary_ok d h'"
proof -
  have same: "h' ! b = h ! b" if "b < length h" for b
    using frame_after_mutation[OF assms(2) that] assms(3) by simp
  have len: "length h \<le> length h'"
    using getter_result[OF assms(2)] assms(3) by (simp add: mutate_length)
  from assms(1) have all: "d_all_skills d < length h"
    and cats: "\<And>k a. (k, a) \<in> set (d_skills d) \<Longrightarrow> a < length h"
    by (auto simp: dictionary_ok_def)
  have c1: "contains d h' skill = contains d h skill"
    by (simp add: contains_def same[OF all])
  have "find (\<lambda>(k, a). lower_str skill \<in> h' ! a) (d_skills d)
          = find (\<lambda>(k, a). lower_str skill \<in> h ! a) (d_skills d)"
    by (rule find_cong_set) (auto simp: same cats)
  then have c2: "get_category d h' skill = get_category d h skill"
    by (simp add: get_category_def)
  have c3: "contents (get_all_skills d h') = contents (get_all_skills d h)"
    by (simp add: contents_def get_all_skills_def alloc_def same[OF all])
  have c4: "contents (get_skills_by_category d h' c) = contents (get_skills_by_category d h c)"
  proof (cases "map_of (d_skills d) c")
    case None
    then show ?thesis
      by (simp add: contents_def get_skills_by_category_def alloc_def nth_append)
  next
    case (Some a)
    then have "a < length h" using cats map_of_in_set by fastforce
    with Some show ?thesis
      by (simp add: contents_def get_skills_by_category_def alloc_def same)
  qed
  have c5: "dictionary_ok d h'"
    using assms(1) len by (fastforce simp: dictionary_ok_def)
  from c1 c2 c3 c4 c5 show ?thesis by simp
qed

lemma new_dictionary_ok: "dictionary_ok (fst (new_dictionary h)) (snd (new_dictionary h))"
  by (simp add: new_dictionary_def alloc_def dictionary_ok_def)

lemma add_skill_ok: "dictionary_ok d h \<Longrightarrow> add_skill d h skill category = Inr h' \<Longrightarrow> dictionary_ok d h'"
  by (auto simp: add_skill_def dictionary_ok_def Let_def split: option.splits)

lemma getter_ok:
  "dictionary_ok d h \<Longrightarrow> r = get_all_skills d h \<or> r = get_skills_by_category d h category
   \<Longrightarrow> dictionary_ok d (snd r)"
  using getter_result[of r d h category] by (fastforce simp: dictionary_ok_def)

lemma dict_assign_set: "set (dict_assign items key v) \<subseteq> set items \<union> {(key, v)}"
  by (induction items key v rule: dict_assign.induct) auto

lemma load_from_file_refs:
  assumes "load_from_file fs d h file_path = Inr (result, d', h')"
  shows "d_skills d' = d_skills d \<and> d_all_skills d' = d_all_skills d
       \<and> result < length h' \<and> length h \<le> length h'"
  using assms
  by (auto simp: load_from_file_def alloc_def Let_def split: file_state.splits prod.splits)

lemma load_category_ok:
  assumes "dictionary_ok (fst dh) (snd dh)" and "load_category fs category path dh = Inr dh'"
  shows "dictionary_ok (fst dh') (snd dh')"
proof (cases "path = None \<or> path = Some []")
  case True
  with assms show ?thesis by (auto simp: load_category_def)
next
  case False
  then obtain file_path where p: "path = Some file_path" "file_path \<noteq> []" by auto
  with assms(2) obtain result d' h' where
    l: "load_from_file fs (fst dh) (snd dh) file_path = Inr (result, d', h')"
    and dh': "dh' = (d'\<lparr>d_skills := dict_assign (d_skills d') category result\<rparr>, h')"
    by (auto simp: load_category_def split: sum.splits)
  from load_from_file_refs[OF l] assms(1) dict_assign_set[of "d_skills (fst dh)" category result]
  show ?thesis
    unfolding dh' dictionary_ok_def by fastforce
qed

lemma load_all_ok:
  assumes "dictionary_ok d h" and "load_all fs technical soft custom d h = Inr (d', h')"
  shows "dictionary_ok d' h'"
proof -
  from assms(2) obtain dh1 dh2 dh3 where
    s1: "load_category fs ''technical'' technical (d, h) = Inr dh1"
    and s2: "load_category fs ''soft'' soft dh1 = Inr dh2"
    and s3: "load_category fs ''custom'' custom dh2 = Inr dh3"
    by (auto simp: load_all_def split: sum.splits)
  from assms(1) have "dictionary_ok (fst (d, h)) (snd (d, h))" by simp
  from load_category_ok[OF load_category_ok[OF load_category_ok[OF this s1] s2] s3]
  have ok3: "dictionary_ok (fst dh3) (snd dh3)" .
  from assms(2) s1 s2 s3 have
    "d_skills d' = d_skills (fst dh3)" "d_all_skills d' = length (snd dh3)"
    "length h' = Suc (length (snd dh3))"
    by (auto simp: load_all_def alloc_def Let_def split: prod.splits)
  with ok3 show ?thesis
    unfolding dictionary_ok_def by fastforce
qed

theorem returned_sets_are_copies_witness:
  "contains (fst (new_dictionary []))
     (fold (mutate (fst (get_all_skills (fst (new_dictionary []))
                      (projr (add_skill (fst (new_dictionary [])) (snd (new_dictionary []))
                         ''Python'' ''technical'')))))
        [SetClear, SetAdd ''cobol'']
        (snd (get_all_skills (fst (new_dictionary []))
           (projr (add_skill (fst (new_dictionary [])) (snd (new_dictionary []))
              ''Python'' ''technical'')))))
     ''python''
   = contains (fst (new_dictionary []))
       (projr (add_skill (fst (new_dictionary [])) (snd (new_dictionary []))
          ''Python'' ''technical''))
       ''python''"
proof -
  let ?d = "fst (new_dictionary [])"
  let ?h = "projr (add_skill ?d (snd (new_dictionary [])) ''Python'' ''technical'')"
  have a: "add_skill ?d (snd (new_dictionary [])) ''Python'' ''technical'' = Inr ?h"
    by (simp add: add_skill_def new_dictionary_def alloc_def Let_def)
  have ok: "dictionary_ok ?d ?h"
    by (rule add_skill_ok[OF new_dictionary_ok a])
  from returned_sets_are_copies[OF ok disjI1[OF refl] refl] show ?thesis by blast
qed

lemma returned_set_mutation_example:
  "contents (get_all_skills (fst (new_dictionary []))
      (fold (mutate (fst (get_all_skills (fst (new_dictionary []))
                      (projr (add_skill (fst (new_dictionary [])) (snd (new_dictionary []))
                         ''Python'' ''technical'')))))
        [SetClear, SetAdd ''cobol'']
        (snd (get_all_skills (fst (new_dictionary []))
           (projr (add_skill (fst (new_dictionary [])) (snd (new_dictionary []))
              ''Python'' ''technical''))))))
   = {''python''}"
  by code_simp

section \<open>Percentages and the core-skill flag\<close>

lemma create_rule_error:
  "create_rule gen d h skill count n_docs rank role = Inl e \<Longrightarrow> e = OverflowError"
  by (auto simp: create_rule_def Let_def split: sum.splits dest: percentage_of_error)

lemma create_rule_Inr:
  assumes "create_rule gen d h skill count n_docs rank role = Inr r"
  shows "\<exists>pct. percentage_of count n_docs = Inr pct
           \<and> rule_percentage r = py_round2 pct
           \<and> (is_core_skill r
                \<longleftrightarrow> float_le (times100 (to_float (core_threshold gen))) pct)"
  using assms by (auto simp: create_rule_def Let_def split: sum.splits)

text \<open>
  C9, as the code has it: for a group without documents the percentage of any skill is
  0, and neither the aggregation of a group nor the creation of a rule ever raises
  \<open>ZeroDivisionError\<close>. For a group with documents the percentage is the float
  \<open>(frequency / total) * 100\<close>: the quotient rounded to a double, times 100, rounded to a
  double again. For a frequency of at most the total it lies between 0 and 100, and it
  is \<open>100 * frequency / total\<close> whenever neither step rounds; otherwise it can differ from
  that value in the last place. The aggregation of a group returns a result whose
  percentages are these.
\<close>

theorem percentage_never_divides_by_zero:
  "percentage_of count 0 = Inr (Finite 0)
   \<and> percentage_of count n_docs \<noteq> Inl ZeroDivisionError
   \<and> aggregate_group set_iter top_n df \<noteq> Inl ZeroDivisionError
   \<and> create_rule gen d h skill count n_docs rank role \<noteq> Inl ZeroDivisionError
   \<and> (0 < n_docs \<longrightarrow> count \<le> n_docs \<longrightarrow>
        percentage_of count n_docs
          = Inr (Finite (fl (fl (of_nat count / of_nat n_docs) * 100)))
        \<and> 0 \<le> fl (fl (of_nat count / of_nat n_docs) * 100)
        \<and> fl (fl (of_nat count / of_nat n_docs) * 100) \<le> 100)
   \<and> (0 < n_docs \<longrightarrow> count \<le> n_docs \<longrightarrow>
        fl (of_nat count / of_nat n_docs) = of_nat count / of_nat n_docs \<longrightarrow>
        fl (100 * of_nat count / of_nat n_docs) = 100 * of_nat count / of_nat n_docs \<longrightarrow>
        percentage_of count n_docs = Inr (Finite (100 * of_nat count / of_nat n_docs)))
   \<and> ((\<forall>xs. distinct (set_iter xs) \<and> set (set_iter xs) = set xs) \<longrightarrow>
        (\<exists>agg. aggregate_group set_iter top_n df = Inr agg
           \<and> skill_percentages agg
               = map (\<lambda>(skill, count).
                   (skill, if length df = 0 then Finite 0
                           else Finite (fl (fl (of_nat count / of_nat (length df)) * 100))))
                   (skill_frequencies agg)))"
proof -
  have a: "percentage_of count n_docs \<noteq> Inl ZeroDivisionError"
    using percentage_of_error by fastforce
  have b: "aggregate_group set_iter top_n df \<noteq> Inl ZeroDivisionError"
    using aggregate_group_error by fastforce
  have c: "create_rule gen d h skill count n_docs rank role \<noteq> Inl ZeroDivisionError"
    using create_rule_error by fastforce
  have e: "percentage_of count n_docs = Inr (Finite (100 * of_nat count / of_nat n_docs))"
    if "0 < n_docs" "count \<le> n_docs"
      "fl (of_nat count / of_nat n_docs) = of_nat count / of_nat n_docs"
      "fl (100 * of_nat count / of_nat n_docs) = 100 * of_nat count / of_nat n_docs"
  proof -
    have "of_nat count / of_nat n_docs * (100::rat) = 100 * of_nat count / of_nat n_docs"
      by simp
    then have "fl (fl (of_nat count / of_nat n_docs) * 100)
                 = 100 * of_nat count / of_nat n_docs"
      by (simp only: that(3,4))
    with percentage_of_le[OF that(1,2)] show ?thesis by (simp only:)
  qed
  from a b c e percentage_of_le[of n_docs count] aggregate_group_total[of set_iter top_n df]
  show ?thesis
    by (simp add: percentage_of_zero)
qed

lemma percentage_examples:
  "fl (1 / 2) = 1 / 2"
  "fl 50 = 50"
  "fl (fl (7 / 25) * 100) = 7881299347898369 / 281474976710656"
  "(7881299347898369 / 281474976710656 :: rat) \<noteq> 28"
  by code_simp+

theorem percentage_never_divides_by_zero_witness:
  "percentage_of 1 2 = Inr (Finite 50)
   \<and> percentage_of 7 25 = Inr (Finite (7881299347898369 / 281474976710656))
   \<and> percentage_of 7 0 = Inr (Finite 0)"
proof -
  have "(0::nat) < 2" "(1::nat) \<le> 2" "(0::nat) < 25" "(7::nat) \<le> 25" by simp_all
  with percentage_never_divides_by_zero[of 1 2] percentage_never_divides_by_zero[of 7 25]
    percentage_never_divides_by_zero[of 7 0]
  show ?thesis
    by (simp add: percentage_examples)
qed

theorem percentage_float_counterexample:
  "percentage_of 7 25 = Inr (Finite (7881299347898369 / 281474976710656))
   \<and> percentage_of 7 25 \<noteq> Inr (Finite (100 * 7 / 25))"
proof -
  have "(0::nat) < 25" "(7::nat) \<le> 25" by simp_all
  from percentage_of_le[OF this] show ?thesis
    by (simp add: percentage_examples)
qed

text \<open>
  C8: the core-skill flag of a rule is set exactly when the percentage of the skill is
  at least the core threshold times 100, both as the floats the code computes. The
  boundary is included: whenever \<open>100 * frequency / total\<close> (0 for a group without
  documents) reaches the configured threshold times 100 the flag is set, so with
  threshold 0.5 a skill in exactly half of the documents is a core skill; and the flag
  is set only then, or when the two floats are equal.
\<close>

theorem core_skill_flag_inclusive:
  assumes "create_rule gen d h skill count n_docs rank role = Inr r"
  shows "(\<exists>pct. percentage_of count n_docs = Inr pct
            \<and> rule_percentage r = py_round2 pct
            \<and> (is_core_skill r
                 \<longleftrightarrow> float_le (times100 (to_float (core_threshold gen))) pct))
       \<and> (core_threshold gen * 100
            \<le> (if n_docs = 0 then 0 else 100 * of_nat count / of_nat n_docs)
          \<longrightarrow> is_core_skill r)
       \<and> (core_threshold gen = 1 / 2 \<longrightarrow> 0 < n_docs \<longrightarrow> 2 * count = n_docs \<longrightarrow> is_core_skill r)
       \<and> (0 < n_docs \<longrightarrow> core_threshold gen * of_nat n_docs \<le> of_nat count
          \<longrightarrow> is_core_skill r)
       \<and> (is_core_skill r \<longrightarrow>
            core_threshold gen * 100
              \<le> (if n_docs = 0 then 0 else 100 * of_nat count / of_nat n_docs)
            \<or> percentage_of count n_docs
                = Inr (times100 (to_float (core_threshold gen))))"
proof -
  let ?t = "core_threshold gen"
  let ?T = "times100 (to_float ?t)"
  let ?E = "if n_docs = 0 then 0 else of_nat count / of_nat n_docs :: rat"
  from create_rule_Inr[OF assms] obtain pct where
    p: "percentage_of count n_docs = Inr pct"
    and rp: "rule_percentage r = py_round2 pct"
    and core: "is_core_skill r \<longleftrightarrow> float_le ?T pct"
    by blast
  from percentage_of_Inr[OF p] have pct: "pct = times100 (to_float ?E)" .
  have exact_iff: "?t * 100 \<le> (if n_docs = 0 then 0 else 100 * of_nat count / of_nat n_docs)
                    \<longleftrightarrow> ?t \<le> ?E"
    by (simp add: field_simps)
  have up: "is_core_skill r" if "?t \<le> ?E"
    using times100_mono[OF to_float_mono[OF that]] core pct by simp
  have down: "pct = ?T" if "is_core_skill r" "\<not> ?t \<le> ?E"
  proof -
    from that(2) have "?E \<le> ?t" by simp
    from times100_mono[OF to_float_mono[OF this]] have "float_le pct ?T"
      unfolding pct .
    moreover from that(1) core have "float_le ?T pct" by simp
    ultimately show ?thesis by (rule float_le_antisym)
  qed
  have half: "is_core_skill r" if "?t = 1 / 2" "0 < n_docs" "2 * count = n_docs"
  proof -
    from that(2,3) have "(of_nat count / of_nat n_docs :: rat) = 1 / 2"
      by (auto simp: field_simps of_nat_mult[symmetric] simp del: of_nat_mult)
    with that(1,2) show ?thesis by (intro up) simp
  qed
  have scaled: "is_core_skill r" if "0 < n_docs" "?t * of_nat n_docs \<le> of_nat count"
  proof -
    from that have "?t \<le> ?E" by (simp add: field_simps)
    then show ?thesis by (rule up)
  qed
  from p rp core have first: "\<exists>pct. percentage_of count n_docs = Inr pct
            \<and> rule_percentage r = py_round2 pct
            \<and> (is_core_skill r \<longleftrightarrow> float_le ?T pct)"
    by blast
  from first up down half scaled p show ?thesis
    unfolding exact_iff by blast
qed

theorem core_skill_flag_inclusive_witness:
  "is_core_skill
     (projr (create_rule \<lparr>min_frequency = 2, core_threshold = 1 / 2, gen_variations = []\<rparr>
        (fst (new_dictionary [])) (snd (new_dictionary [])) ''python'' 1 2 None None))"
proof -
  let ?gen = "\<lparr>min_frequency = 2, core_threshold = 1 / 2, gen_variations = []\<rparr>"
  let ?c = "create_rule ?gen (fst (new_dictionary [])) (snd (new_dictionary [])) ''python'' 1 2
              None None"
  have "(0::nat) < 2" "(1::nat) \<le> 2" by simp_all
  from percentage_of_le[OF this] have "?c = Inr (projr ?c)"
    by (simp add: create_rule_def Let_def)
  from core_skill_flag_inclusive[OF this] show ?thesis by simp
qed

end
